theory Spec2Isabelle
  imports Main
begin

section \<open>Data model (package models)\<close>

text \<open>
  Go's \<^verbatim>\<open>int\<close> and \<^verbatim>\<open>int64\<close> are 64-bit two's-complement integers on the
  platforms the service is built for. They are modelled as \<^typ>\<open>int\<close>, the values of the
  program lying between \<open>MinInt\<close> and \<open>MaxInt\<close>, and every addition, subtraction and
  multiplication of the code that can leave this range is followed by the reduction
  \<open>wrap64\<close> into it. A \<^verbatim>\<open>time.Time\<close> is the number of nanoseconds since the epoch
  and a \<^verbatim>\<open>time.Duration\<close> a (possibly negative) number of nanoseconds in the 64-bit
  range.
\<close>

record Player =
  ID :: string
  Rating :: int
  Region :: string
  GameMode :: string
  JoinedAt :: int
  PlayerLevel :: int

record Match =
  MatchID :: string
  Players :: "Player list"
  CreatedAt :: int

section \<open>Configuration (service/matcher.go)\<close>

record MatcherConfig =
  MaxRatingDiff :: int
  MaxSearchTime :: int
  RatingExpansionRate :: int
  PlayersPerMatch :: int

definition Second :: int where
  "Second = 1000000000"

definition Minute :: int where
  "Minute = 60 * Second"

definition DefaultMatcherConfig :: MatcherConfig where
  "DefaultMatcherConfig =
     \<lparr>MaxRatingDiff = 200, MaxSearchTime = 5 * Minute,
      RatingExpansionRate = 50, PlayersPerMatch = 6\<rparr>"

definition GetPlayersPerMatch :: "string \<Rightarrow> nat" where
  "GetPlayersPerMatch gameMode =
     (if gameMode = ''1v1'' then 2
      else if gameMode = ''3v3'' then 6
      else 6)"

section \<open>Machine arithmetic\<close>

definition MaxInt :: int where
  "MaxInt = 9223372036854775807"

definition MinInt :: int where
  "MinInt = - 9223372036854775808"

text \<open>The values of a 64-bit integer.\<close>

definition is_int64 :: "int \<Rightarrow> bool" where
  "is_int64 x \<longleftrightarrow> MinInt \<le> x \<and> x \<le> MaxInt"

text \<open>
  The result of a 64-bit addition, subtraction or multiplication whose exact result is
  \<open>x\<close>: the value congruent to \<open>x\<close> modulo \<open>2^64\<close> between \<open>MinInt\<close> and \<open>MaxInt\<close>.
\<close>

definition wrap64 :: "int \<Rightarrow> int" where
  "wrap64 x = (x + 9223372036854775808) mod 18446744073709551616 - 9223372036854775808"

text \<open>
  Go's integer division \<^verbatim>\<open>a / b\<close> truncates towards zero, whereas \<open>div\<close> on
  \<^typ>\<open>int\<close> rounds down.
\<close>

definition go_quot :: "int \<Rightarrow> int \<Rightarrow> int" where
  "go_quot a b = (if (a < 0) = (b < 0) then \<bar>a\<bar> div \<bar>b\<bar> else - (\<bar>a\<bar> div \<bar>b\<bar>))"

text \<open>
  A \<^verbatim>\<open>float64\<close> has a significand of 53 bits, and every operation on it returns the
  representable number nearest to the exact result, a tie going to the even significand.
  \<open>nearest_even n d\<close> is the quotient \<open>n / d\<close> (for \<open>d > 0\<close>) rounded in this way to an
  integer.
\<close>

definition nearest_even :: "int \<Rightarrow> int \<Rightarrow> int" where
  "nearest_even n d =
     (if d < 2 * (n mod d) \<or> (2 * (n mod d) = d \<and> odd (n div d)) then n div d + 1
      else n div d)"

text \<open>
  \<open>excess a\<close> is the number of bits by which \<open>a \<ge> 0\<close> is longer than 53 bits, and
  \<open>round53 x\<close> is the integer \<open>x\<close> rounded to 53 significant bits: the value of the
  conversion \<^verbatim>\<open>float64(x)\<close>. It is \<open>x\<close> itself up to a magnitude of \<open>2^53\<close>.
\<close>

function excess :: "int \<Rightarrow> nat" where
  "excess a = (if a < 9007199254740992 then 0 else Suc (excess (a div 2)))"
  by pat_completeness auto

termination
  by (relation "measure nat") auto

declare excess.simps [simp del]

definition round53 :: "int \<Rightarrow> int" where
  "round53 x = sgn x * (nearest_even (abs x) (2 ^ excess (abs x)) * 2 ^ excess (abs x))"

text \<open>
  The conversion \<^verbatim>\<open>int(f)\<close> of a \<^verbatim>\<open>float64\<close> that holds the integer \<open>v\<close>. When
  \<open>v\<close> is outside the 64-bit range Go leaves the result to the implementation; the
  amd64 instruction the compiler emits returns the smallest 64-bit integer.
\<close>

definition float64_to_int :: "int \<Rightarrow> int" where
  "float64_to_int v = (if MinInt \<le> v \<and> v \<le> MaxInt then v else MinInt)"

section \<open>Rating window and compatibility\<close>

text \<open>
  \<^verbatim>\<open>int(waitTime.Seconds())\<close>. The library computes \<^verbatim>\<open>Seconds\<close> as
  \<^verbatim>\<open>float64(sec) + float64(nsec)/1e9\<close> with \<^verbatim>\<open>sec := d / Second\<close> and
  \<^verbatim>\<open>nsec := d % Second\<close>, and the conversion to \<^verbatim>\<open>int\<close> drops the fraction, towards
  zero. Division, remainder, rounding and conversion are all symmetric in the sign, so the
  result is the sign of \<open>d\<close> times the result for \<open>\<bar>d\<bar>\<close>, which \<open>seconds_magnitude\<close>
  computes:
  \<^item> \<open>quot_shift n d\<close> is the number \<open>s\<close> of binary places for which \<open>n * 2^s / d\<close> has 53
    bits before the point (0 for \<open>n = 0\<close>), so that the quotient \<^verbatim>\<open>float64(nsec)/1e9\<close> is
    \<open>nearest_even (nsec * 2^s) Second / 2^s\<close>;
  \<^item> the sum with \<^verbatim>\<open>float64(sec)\<close>, which is exact, is the exact sum
    \<open>(sec * 2^s + nearest_even (nsec * 2^s) Second) / 2^s\<close> rounded to 53 significant bits;
  \<^item> the conversion to \<^verbatim>\<open>int\<close> is the integer part, the division by \<open>2^s\<close> rounding down.
  The result is below \<open>2^34\<close> in magnitude for every 64-bit duration, so that the
  conversion is never out of range.
\<close>

function quot_shift :: "int \<Rightarrow> int \<Rightarrow> nat" where
  "quot_shift n d =
     (if n \<le> 0 \<or> d \<le> 0 \<or> 4503599627370496 * d \<le> n then 0
      else Suc (quot_shift (2 * n) d))"
  by pat_completeness auto

termination
  by (relation "measure (\<lambda>(n, d). nat (4503599627370496 * d - n))") auto

declare quot_shift.simps [simp del]

definition seconds_magnitude :: "int \<Rightarrow> int" where
  "seconds_magnitude d =
     round53 ((d div Second) * 2 ^ quot_shift (d mod Second) Second
              + nearest_even ((d mod Second) * 2 ^ quot_shift (d mod Second) Second) Second)
       div 2 ^ quot_shift (d mod Second) Second"

definition whole_seconds :: "int \<Rightarrow> int" where
  "whole_seconds d = sgn d * seconds_magnitude \<bar>d\<bar>"

definition calculateRatingRange :: "MatcherConfig \<Rightarrow> int \<Rightarrow> int" where
  "calculateRatingRange cfg waitTime =
     (if waitTime > MaxSearchTime cfg then 1000
      else (let expansionCount = go_quot (whole_seconds waitTime) 30
            in wrap64 (MaxRatingDiff cfg
                       + wrap64 (expansionCount * RatingExpansionRate cfg))))"

definition isCompatible :: "MatcherConfig \<Rightarrow> Player \<Rightarrow> Player \<Rightarrow> bool" where
  "isCompatible cfg p1 p2 =
     (if Region p1 \<noteq> Region p2 then False
      else if GameMode p1 \<noteq> GameMode p2 then False
      else (let ratingDiff =
                  float64_to_int \<bar>round53 (wrap64 (Rating p1 - Rating p2))\<bar>
            in ratingDiff \<le> MaxRatingDiff cfg))"

text \<open>
  The window as the specification words it: the number of 30-second slices is the floor of
  the wait time in seconds divided by 30.
\<close>

definition window_spec :: "MatcherConfig \<Rightarrow> int \<Rightarrow> int" where
  "window_spec cfg t =
     (if t > MaxSearchTime cfg then 1000
      else MaxRatingDiff cfg + (t div (30 * Second)) * RatingExpansionRate cfg)"

section \<open>Errors, log entries and the storage calls of an invocation\<close>

text \<open>
  The errors the storage layer and the matcher build with \<^verbatim>\<open>fmt.Errorf\<close>, one
  constructor per message; a wrapping message (\<^verbatim>\<open>%w\<close>) carries the wrapped error.
\<close>

datatype error =
    PlayerNotFound
  | FailedToGetPlayer
  | FailedToRemovePlayerFromQueue
  | FailedToDeletePlayerKey
  | FailedToGetPlayersInRange
  | MatchNotFound
  | StoreUnavailable
  | PlayerNotFoundInQueue error
  | FailedToGetCandidates error
  | FailedToGetPlayers error
  | NoSuitableMatchFound

datatype log_entry =
    LogInfo string "string list"
  | LogWarn string "string list"

text \<open>
  A history of the calls made to the storage object, each with whether it returned without
  error. It is a record of what the service did, kept beside the state: the code does not
  read it.
\<close>

datatype store_call =
    GetMatchCall string
  | GetPlayerCall string
  | RangeCall string string int int int
  | SaveCall Match bool
  | RemoveCall string bool

section \<open>The Redis storage (package storage)\<close>

text \<open>
  The state the service runs against. \<open>zsets\<close> are the sorted sets of the queues, by
  key, each as the list of its members in the order \<^verbatim>\<open>ZRANGEBYSCORE\<close> returns them;
  a member is the JSON of a player, modelled by the player record it encodes, and its
  score is the rating of that player (\<^verbatim>\<open>AddPlayerToQueue\<close> is the only writer).
  \<open>playerKeys\<close> are the string keys \<^verbatim>\<open>player:<id>\<close>. \<open>matchKeys\<close> holds the
  saved matches by player id. \<open>faults\<close> decides the outcome of the successive Redis
  commands: each command takes the head of the list and fails with an I/O error when it is
  \<open>True\<close>; once the list is used up no command fails. \<open>clock\<close> is the wall clock,
  read by \<^verbatim>\<open>time.Now\<close> and \<^verbatim>\<open>time.Since\<close>; one invocation reads it as constant.
  Every stored JSON decodes (only this service writes the keys), so the branches for a
  failed \<^verbatim>\<open>json.Unmarshal\<close> have no counterpart. The expiry of a player key is not
  a step of the model; a state in which a queued player has no player key stands for it.
\<close>

record world =
  zsets :: "string \<Rightarrow> Player list"
  playerKeys :: "string \<rightharpoonup> Player"
  matchKeys :: "string \<rightharpoonup> Match"
  faults :: "bool list"
  logged :: "log_entry list"
  calls :: "store_call list"
  clock :: int

definition redis_fails :: "world \<Rightarrow> bool \<times> world" where
  "redis_fails w = (case faults w of [] \<Rightarrow> (False, w) | f # fs \<Rightarrow> (f, w\<lparr>faults := fs\<rparr>))"

definition returned :: "store_call \<Rightarrow> world \<Rightarrow> world" where
  "returned c w = w\<lparr>calls := calls w @ [c]\<rparr>"

definition logger :: "log_entry \<Rightarrow> world \<Rightarrow> world" where
  "logger e w = w\<lparr>logged := logged w @ [e]\<rparr>"

definition queueKey :: "string \<Rightarrow> string \<Rightarrow> string" where
  "queueKey region gameMode = ''queue:'' @ region @ '':'' @ gameMode"

definition playerKey :: "string \<Rightarrow> string" where
  "playerKey playerID = ''player:'' @ playerID"

text \<open>
  \<^verbatim>\<open>ZRANGEBYSCORE key min max LIMIT 0 count\<close>: the members whose score lies between the
  bounds, both included, and of those the first \<open>count\<close>. The client sends the
  \<^verbatim>\<open>LIMIT\<close> clause only for a count other than 0, and Redis returns every member in
  range for a negative count. Redis keeps and compares scores as \<^verbatim>\<open>float64\<close>: the
  score of a member is \<^verbatim>\<open>float64(player.Rating)\<close> and the bounds, sent in decimal, are
  read as \<^verbatim>\<open>float64\<close> too.
\<close>

definition ZRangeByScore :: "Player list \<Rightarrow> int \<Rightarrow> int \<Rightarrow> int \<Rightarrow> Player list" where
  "ZRangeByScore members minScore maxScore count =
     (let inRange = filter (\<lambda>p. round53 minScore \<le> round53 (Rating p)
                                 \<and> round53 (Rating p) \<le> round53 maxScore) members
      in if 0 < count then take (nat count) inRange else inRange)"

definition GetPlayersInRange ::
    "world \<Rightarrow> string \<Rightarrow> string \<Rightarrow> int \<Rightarrow> int \<Rightarrow> int \<Rightarrow> (error + Player list) \<times> world" where
  "GetPlayersInRange w region gameMode minRating maxRating limit =
     (let key = queueKey region gameMode;
          (failed, w1) = redis_fails w;
          w2 = returned (RangeCall region gameMode minRating maxRating limit) w1
      in if failed then (Inl FailedToGetPlayersInRange, w2)
         else (Inr (ZRangeByScore (zsets w1 key) minRating maxRating limit), w2))"

definition GetPlayerByID :: "world \<Rightarrow> string \<Rightarrow> (error + Player) \<times> world" where
  "GetPlayerByID w playerID =
     (let (failed, w1) = redis_fails w;
          w2 = returned (GetPlayerCall playerID) w1
      in if failed then (Inl FailedToGetPlayer, w2)
         else (case playerKeys w1 (playerKey playerID) of
                 None \<Rightarrow> (Inl PlayerNotFound, w2)
               | Some player \<Rightarrow> (Inr player, w2)))"

definition RemovePlayerFromQueue :: "world \<Rightarrow> string \<Rightarrow> error option \<times> world" where
  "RemovePlayerFromQueue w playerID =
     (let (getFailed, w1) = redis_fails w
      in if getFailed then (Some FailedToGetPlayer, returned (RemoveCall playerID False) w1)
         else (case playerKeys w1 (playerKey playerID) of
            None \<Rightarrow> (Some PlayerNotFound, returned (RemoveCall playerID False) w1)
          | Some player \<Rightarrow>
             (let key = queueKey (Region player) (GameMode player);
                  (zremFailed, w2) = redis_fails w1
              in if zremFailed
                 then (Some FailedToRemovePlayerFromQueue,
                       returned (RemoveCall playerID False) w2)
                 else (let w3 = w2\<lparr>zsets := (zsets w2)(key := removeAll player (zsets w2 key))\<rparr>;
                           (delFailed, w4) = redis_fails w3
                       in if delFailed
                          then (Some FailedToDeletePlayerKey,
                                returned (RemoveCall playerID False) w4)
                          else (None,
                                returned (RemoveCall playerID True)
                                  (logger (LogInfo ''Player removed from queue'' [playerID])
                                    (w4\<lparr>playerKeys :=
                                          (playerKeys w4)(playerKey playerID := None)\<rparr>)))))))"

text \<open>
  Modelled from the spec: \<^verbatim>\<open>SaveMatch\<close> is a method of the storage that the matcher
  calls and the source files do not define. The specification gives
  \<^verbatim>\<open>saveMatch(match)\<close> as a durable write that can fail with
  \<^verbatim>\<open>StoreUnavailable\<close>, and has the saved match found again by the id of any of its
  players. It is therefore one write that either fails and changes nothing, or stores the
  match under the id of each of its players.
\<close>

definition SaveMatch :: "world \<Rightarrow> Match \<Rightarrow> error option \<times> world" where
  "SaveMatch w match =
     (let (failed, w1) = redis_fails w
      in if failed then (Some StoreUnavailable, returned (SaveCall match False) w1)
         else (None,
               returned (SaveCall match True)
                 (w1\<lparr>matchKeys :=
                       foldl (\<lambda>m p. m(ID p \<mapsto> match)) (matchKeys w1) (Players match)\<rparr>)))"

text \<open>
  Modelled from the spec: \<^verbatim>\<open>GetMatchByPlayerID\<close> is a method of the storage that the
  matcher calls and the source files do not define. The specification gives
  \<^verbatim>\<open>getMatchByPlayerID(playerID) -> match or NotFound\<close>, the query by player id that
  serves the repeated lookup of a matched player, and has every operation of the store
  subject to \<^verbatim>\<open>StoreUnavailable\<close>, the failure of its I/O. It is therefore one read
  that either fails, or reads what \<^verbatim>\<open>SaveMatch\<close> stored, and changes nothing.
\<close>

definition GetMatchByPlayerID :: "world \<Rightarrow> string \<Rightarrow> (error + Match) \<times> world" where
  "GetMatchByPlayerID w playerID =
     (let (failed, w1) = redis_fails w;
          w2 = returned (GetMatchCall playerID) w1
      in if failed then (Inl StoreUnavailable, w2)
         else (case matchKeys w1 playerID of
                 None \<Rightarrow> (Inl MatchNotFound, w2)
               | Some match \<Rightarrow> (Inr match, w2)))"

section \<open>The matcher (service/matcher.go)\<close>

text \<open>\<^verbatim>\<open>fmt.Sprintf("match_%d", n)\<close>: the decimal digits of a number.\<close>

fun digits :: "nat \<Rightarrow> string" where
  "digits n = (if n < 10 then [''0123456789'' ! n]
               else digits (n div 10) @ [''0123456789'' ! (n mod 10)])"

declare digits.simps [simp del]

definition newMatchID :: "int \<Rightarrow> string" where
  "newMatchID unixNano =
     ''match_'' @ (if unixNano < 0 then ''-'' @ digits (nat (- unixNano))
                   else digits (nat unixNano))"

text \<open>
  The loop of \<^verbatim>\<open>FindMatch\<close> over the candidates: the requesting player is skipped, a
  compatible candidate is appended, and the loop stops as soon as the group is full.
\<close>

fun scanCandidates ::
    "MatcherConfig \<Rightarrow> string \<Rightarrow> Player \<Rightarrow> nat \<Rightarrow> Player list \<Rightarrow> Player list \<Rightarrow> Player list" where
  "scanCandidates cfg playerID currentPlayer playersPerMatch [] matchPlayers = matchPlayers"
| "scanCandidates cfg playerID currentPlayer playersPerMatch (candidate # rest) matchPlayers =
     (if ID candidate = playerID
      then scanCandidates cfg playerID currentPlayer playersPerMatch rest matchPlayers
      else if isCompatible cfg currentPlayer candidate
      then (if length (matchPlayers @ [candidate]) \<ge> playersPerMatch
            then matchPlayers @ [candidate]
            else scanCandidates cfg playerID currentPlayer playersPerMatch rest
                   (matchPlayers @ [candidate]))
      else scanCandidates cfg playerID currentPlayer playersPerMatch rest matchPlayers)"

text \<open>
  The loop that removes the players of a match from the queue: a removal that fails is
  logged as a warning and the loop goes on.
\<close>

fun removeMatched :: "world \<Rightarrow> Player list \<Rightarrow> world" where
  "removeMatched w [] = w"
| "removeMatched w (p # ps) =
     (case RemovePlayerFromQueue w (ID p) of
        (Some err, w1) \<Rightarrow>
          removeMatched (logger (LogWarn ''Failed to remove player from queue'' [ID p]) w1) ps
      | (None, w1) \<Rightarrow> removeMatched w1 ps)"

text \<open>
  Saving a match: a failure of \<^verbatim>\<open>SaveMatch\<close> is logged as a warning and nothing else
  is done about it.
\<close>

definition saveOrWarn :: "world \<Rightarrow> Match \<Rightarrow> world" where
  "saveOrWarn w match =
     (case SaveMatch w match of
        (Some err, w1) \<Rightarrow> logger (LogWarn ''Failed to save match'' [MatchID match]) w1
      | (None, w1) \<Rightarrow> w1)"

text \<open>
  \<^verbatim>\<open>time.Since(t)\<close>: the time elapsed from \<open>t\<close> to the clock, as a duration; a
  difference outside the 64-bit range yields the largest or the smallest duration.
\<close>

definition Since :: "world \<Rightarrow> int \<Rightarrow> int" where
  "Since w t = max MinInt (min MaxInt (clock w - t))"

text \<open>
  \<^verbatim>\<open>FindMatch\<close>. The saved match is returned when the lookup gave no error and a
  match; any error of the lookup, be it that no match is stored or that the store failed,
  is dropped and the search goes on.
\<close>

definition FindMatch :: "MatcherConfig \<Rightarrow> world \<Rightarrow> string \<Rightarrow> (error + Match) \<times> world" where
  "FindMatch cfg w playerID =
     (case GetMatchByPlayerID w playerID of
        (Inr savedMatch, w1) \<Rightarrow>
          (Inr savedMatch,
           logger (LogInfo ''Returning saved match'' [MatchID savedMatch, playerID]) w1)
      | (Inl _, w1) \<Rightarrow>
         (case GetPlayerByID w1 playerID of
            (Inl err, w2) \<Rightarrow> (Inl (PlayerNotFoundInQueue err), w2)
          | (Inr currentPlayer, w2) \<Rightarrow>
             (let playersPerMatch = GetPlayersPerMatch (GameMode currentPlayer);
                  waitTime = Since w2 (JoinedAt currentPlayer);
                  ratingRange = calculateRatingRange cfg waitTime
              in case GetPlayersInRange w2 (Region currentPlayer) (GameMode currentPlayer)
                        (wrap64 (Rating currentPlayer - ratingRange))
                        (wrap64 (Rating currentPlayer + ratingRange))
                        (int (playersPerMatch * 2)) of
                   (Inl err, w3) \<Rightarrow> (Inl (FailedToGetCandidates err), w3)
                 | (Inr candidates, w3) \<Rightarrow>
                    (let matchPlayers =
                           scanCandidates cfg playerID currentPlayer playersPerMatch
                             candidates [currentPlayer]
                     in if length matchPlayers \<ge> playersPerMatch
                        then (let match = \<lparr>MatchID = newMatchID (clock w3),
                                            Players = matchPlayers,
                                            CreatedAt = clock w3\<rparr>;
                                  w4 = saveOrWarn w3 match;
                                  w5 = removeMatched w4 matchPlayers
                              in (Inr match,
                                  logger (LogInfo ''Match found'' [MatchID match]) w5))
                        else (Inl NoSuitableMatchFound, w3)))))"

text \<open>
  The inner loop of \<^verbatim>\<open>ProcessQueue\<close>: while the group is not full, every player not
  yet used that is compatible with the first player of the group joins it and is marked
  used. \<open>anchor\<close> is \<^verbatim>\<open>group[0]\<close>.
\<close>

fun buildGroup ::
    "MatcherConfig \<Rightarrow> nat \<Rightarrow> Player \<Rightarrow> Player list \<Rightarrow> Player list \<Rightarrow> string set
       \<Rightarrow> Player list \<times> string set" where
  "buildGroup cfg playersPerMatch anchor [] grp used = (grp, used)"
| "buildGroup cfg playersPerMatch anchor (pj # rest) grp used =
     (if \<not> length grp < playersPerMatch then (grp, used)
      else if ID pj \<in> used then buildGroup cfg playersPerMatch anchor rest grp used
      else if isCompatible cfg anchor pj
      then buildGroup cfg playersPerMatch anchor rest (grp @ [pj]) (insert (ID pj) used)
      else buildGroup cfg playersPerMatch anchor rest grp used)"

text \<open>
  The outer loop of \<^verbatim>\<open>ProcessQueue\<close> over the fetched players, from index \<open>i\<close> on
  (\<open>remaining\<close>); \<open>players\<close> is the whole fetched list, which the inner loop scans from
  its start.
\<close>

fun processLoop ::
    "MatcherConfig \<Rightarrow> string \<Rightarrow> string \<Rightarrow> nat \<Rightarrow> Player list \<Rightarrow> Player list \<Rightarrow> string set
       \<Rightarrow> world \<Rightarrow> world" where
  "processLoop cfg region gameMode playersPerMatch players [] used w = w"
| "processLoop cfg region gameMode playersPerMatch players (p # remaining) used w =
     (if ID p \<in> used
      then processLoop cfg region gameMode playersPerMatch players remaining used w
      else (case buildGroup cfg playersPerMatch p players [p] (insert (ID p) used) of
              (grp, used1) \<Rightarrow>
                if length grp \<ge> playersPerMatch
                then (let match = \<lparr>MatchID = newMatchID (clock w),
                                    Players = grp,
                                    CreatedAt = clock w\<rparr>;
                          w1 = saveOrWarn w match;
                          w2 = removeMatched w1 grp;
                          w3 = logger (LogInfo ''Match created from queue processing''
                                         [MatchID match, region, gameMode]) w2
                      in processLoop cfg region gameMode playersPerMatch players remaining
                           used1 w3)
                else processLoop cfg region gameMode playersPerMatch players remaining
                       (used1 - ID ` set grp) w))"

definition ProcessQueue ::
    "MatcherConfig \<Rightarrow> world \<Rightarrow> string \<Rightarrow> string \<Rightarrow> error option \<times> world" where
  "ProcessQueue cfg w region gameMode =
     (let playersPerMatch = GetPlayersPerMatch gameMode
      in case GetPlayersInRange w region gameMode 0 MaxInt 100 of
           (Inl err, w1) \<Rightarrow> (Some (FailedToGetPlayers err), w1)
         | (Inr players, w1) \<Rightarrow>
             if length players < playersPerMatch then (None, w1)
             else (None,
                   processLoop cfg region gameMode playersPerMatch players players {} w1))"

section \<open>Reading the history of an invocation\<close>

text \<open>The storage calls and the log entries an invocation added, from \<open>w\<close> to \<open>w'\<close>.\<close>

definition newCalls :: "world \<Rightarrow> world \<Rightarrow> store_call list" where
  "newCalls w w' = drop (length (calls w)) (calls w')"

definition newLogged :: "world \<Rightarrow> world \<Rightarrow> log_entry list" where
  "newLogged w w' = drop (length (logged w)) (logged w')"

fun removal_of :: "store_call \<Rightarrow> string option" where
  "removal_of (RemoveCall playerID ok) = Some playerID"
| "removal_of c = None"

definition is_read :: "store_call \<Rightarrow> bool" where
  "is_read c = (case c of SaveCall m ok \<Rightarrow> False | RemoveCall playerID ok \<Rightarrow> False | _ \<Rightarrow> True)"

text \<open>
  The order of writes in a history: every \<^verbatim>\<open>SaveMatch\<close> call is followed at once by
  the \<^verbatim>\<open>RemovePlayerFromQueue\<close> calls for the players of that match, one per player
  and in the order of the match, and no player is removed anywhere else. \<open>pending\<close> are
  the ids still to be removed for the match saved last.
\<close>

fun persistBeforeRemove :: "string list \<Rightarrow> store_call list \<Rightarrow> bool" where
  "persistBeforeRemove pending [] = (pending = [])"
| "persistBeforeRemove pending (SaveCall m ok # cs) =
     (pending = [] \<and> persistBeforeRemove (map ID (Players m)) cs)"
| "persistBeforeRemove pending (RemoveCall playerID ok # cs) =
     (case pending of [] \<Rightarrow> False
      | q # qs \<Rightarrow> playerID = q \<and> persistBeforeRemove qs cs)"
| "persistBeforeRemove pending (c # cs) = (pending = [] \<and> persistBeforeRemove [] cs)"

text \<open>
  A match that is a full group of \<open>n\<close> of the fetched players, all of one region and one
  game mode.
\<close>

definition fullGroup :: "Player list \<Rightarrow> nat \<Rightarrow> Match \<Rightarrow> bool" where
  "fullGroup players n m \<longleftrightarrow>
     length (Players m) = n \<and> set (Players m) \<subseteq> set players
     \<and> (\<forall>q\<in>set (Players m). \<forall>q'\<in>set (Players m).
           Region q = Region q' \<and> GameMode q = GameMode q')"

section \<open>Example queues\<close>

text \<open>
  A player as \<^verbatim>\<open>AddPlayerToQueue\<close> stores it, joined at time 0, and the state of a
  storage that holds exactly the given players: each in the sorted set of its region and
  game mode and under its player key, with no match saved yet.
\<close>

definition queued :: "string \<Rightarrow> int \<Rightarrow> string \<Rightarrow> string \<Rightarrow> Player" where
  "queued playerID rating region gameMode =
     \<lparr>ID = playerID, Rating = rating, Region = region, GameMode = gameMode,
      JoinedAt = 0, PlayerLevel = 1\<rparr>"

definition queueOf :: "Player list \<Rightarrow> bool list \<Rightarrow> int \<Rightarrow> world" where
  "queueOf members fs now =
     \<lparr>zsets = (\<lambda>key. filter (\<lambda>p. queueKey (Region p) (GameMode p) = key) members),
      playerKeys = map_of (map (\<lambda>p. (playerKey (ID p), p)) members),
      matchKeys = Map.empty, faults = fs, logged = [], calls = [], clock = now\<rparr>"

text \<open>
  Two players queued for 1v1 in EU, 50 rating points apart, and the match the matcher
  builds of them at second 10.
\<close>

definition duel :: "Player list" where
  "duel = [queued ''alice'' 1500 ''EU'' ''1v1'', queued ''bob'' 1550 ''EU'' ''1v1'']"

definition duelMatch :: Match where
  "duelMatch = \<lparr>MatchID = ''match_10000000000'', Players = duel, CreatedAt = 10 * Second\<rparr>"

text \<open>
  A player queued for 3v3 in EU at rating 1500, five players 290 points above and one
  310 points above.
\<close>

definition trio :: "Player list" where
  "trio = [queued ''carol'' 1500 ''EU'' ''3v3'',
           queued ''near1'' 1790 ''EU'' ''3v3'', queued ''near2'' 1790 ''EU'' ''3v3'',
           queued ''near3'' 1790 ''EU'' ''3v3'', queued ''near4'' 1790 ''EU'' ''3v3'',
           queued ''near5'' 1790 ''EU'' ''3v3'', queued ''far'' 1810 ''EU'' ''3v3'']"

text \<open>Two players queued for 1v1 in EU with negative ratings, 10 points apart.\<close>

definition lowDuel :: "Player list" where
  "lowDuel = [queued ''erin'' (- 20) ''EU'' ''1v1'', queued ''finn'' (- 10) ''EU'' ''1v1'']"



text \<open>
  The match the matcher builds of the two 1v1 players when the second of them asks.
\<close>

definition rematch :: Match where
  "rematch = \<lparr>MatchID = ''match_10000000000'', Players = rev duel, CreatedAt = 10 * Second\<rparr>"

section \<open>Properties of the machine arithmetic\<close>

lemma wrap64_id: "MinInt \<le> x \<Longrightarrow> x \<le> MaxInt \<Longrightarrow> wrap64 x = x"
  by (simp add: wrap64_def MinInt_def MaxInt_def)

lemma wrap64_add_wrap64: "wrap64 (a + wrap64 b) = wrap64 (a + b)"
proof -
  have "(a + ((b + 9223372036854775808) mod 18446744073709551616 - 9223372036854775808)
          + 9223372036854775808) mod 18446744073709551616
      = (a + b + 9223372036854775808) mod 18446744073709551616"
    by (simp add: algebra_simps mod_simps)
  then show ?thesis
    by (simp add: wrap64_def)
qed

lemma wrap64_range: "MinInt \<le> wrap64 x \<and> wrap64 x \<le> MaxInt"
proof -
  have "0 \<le> (x + 9223372036854775808) mod 18446744073709551616"
    and "(x + 9223372036854775808) mod 18446744073709551616 < 18446744073709551616"
    by simp_all
  then show ?thesis
    by (simp add: wrap64_def MinInt_def MaxInt_def)
qed

lemma wrap64_minus_wrap64: "wrap64 (- wrap64 x) = wrap64 (- x)"
proof -
  define y where "y = x + 9223372036854775808"
  have "(18446744073709551616 - y mod 18446744073709551616) mod 18446744073709551616
      = (- y) mod 18446744073709551616"
    by (simp add: mod_minus_eq)
  also have "\<dots> = (- y + 18446744073709551616) mod 18446744073709551616"
    by (rule mod_add_self2 [symmetric])
  finally have "(18446744073709551616 - y mod 18446744073709551616) mod 18446744073709551616
      = (- x + 9223372036854775808) mod 18446744073709551616"
    by (simp add: y_def)
  then show ?thesis
    by (simp add: wrap64_def y_def)
qed

lemma wrap64_minus: "wrap64 (- x) = (if wrap64 x = MinInt then MinInt else - wrap64 x)"
proof (cases "wrap64 x = MinInt")
  case True
  have "wrap64 (- x) = wrap64 (- wrap64 x)"
    by (rule wrap64_minus_wrap64 [symmetric])
  also have "\<dots> = wrap64 (- MinInt)"
    using True by simp
  also have "\<dots> = MinInt"
    by (simp add: wrap64_def MinInt_def)
  finally show ?thesis using True by simp
next
  case False
  with wrap64_range [of x] have "MinInt \<le> - wrap64 x" and "- wrap64 x \<le> MaxInt"
    by (simp_all add: MinInt_def MaxInt_def)
  then have "wrap64 (- wrap64 x) = - wrap64 x"
    by (rule wrap64_id)
  with False show ?thesis by (simp add: wrap64_minus_wrap64)
qed

lemma nearest_even_bounds:
  assumes "0 < d"
  shows "n div d \<le> nearest_even n d" and "nearest_even n d \<le> n div d + 1"
    and "2 * (d * nearest_even n d) \<le> 2 * n + d"
proof -
  show "n div d \<le> nearest_even n d" and "nearest_even n d \<le> n div d + 1"
    by (simp_all add: nearest_even_def)
  define q where "q = n div d"
  define r where "r = n mod d"
  have n: "n = d * q + r" by (simp add: q_def r_def)
  have r: "0 \<le> r" using assms by (simp add: r_def)
  show "2 * (d * nearest_even n d) \<le> 2 * n + d"
  proof (cases "d < 2 * r \<or> (2 * r = d \<and> odd q)")
    case True
    then have u: "nearest_even n d = q + 1" and h: "d \<le> 2 * r"
      by (auto simp add: nearest_even_def q_def r_def)
    have "d * (q + 1) = d * q + d"
      by (simp add: algebra_simps)
    with n h show ?thesis unfolding u by linarith
  next
    case False
    then have u: "nearest_even n d = q"
      by (auto simp add: nearest_even_def q_def r_def)
    from n r assms show ?thesis unfolding u by linarith
  qed
qed

lemma nearest_even_one: "nearest_even n 1 = n"
  by (simp add: nearest_even_def)

lemma nearest_even_zero: "0 \<le> d \<Longrightarrow> nearest_even 0 d = 0"
  by (simp add: nearest_even_def)

lemma excess_small: "a < 9007199254740992 \<Longrightarrow> excess a = 0"
  by (subst excess.simps) simp

lemma excess_big: "\<not> a < 9007199254740992 \<Longrightarrow> excess a = Suc (excess (a div 2))"
  by (subst excess.simps) simp

lemma quot_shift_stop:
  "n \<le> 0 \<or> d \<le> 0 \<or> 4503599627370496 * d \<le> n \<Longrightarrow> quot_shift n d = 0"
  by (subst quot_shift.simps) simp

lemma quot_shift_step:
  "\<not> (n \<le> 0 \<or> d \<le> 0 \<or> 4503599627370496 * d \<le> n) \<Longrightarrow>
   quot_shift n d = Suc (quot_shift (2 * n) d)"
  by (subst quot_shift.simps) simp

lemmas float_run = whole_seconds_def seconds_magnitude_def Second_def quot_shift_stop
  quot_shift_step round53_def nearest_even_def excess_small excess_big

lemma round53_small: "\<bar>x\<bar> < 9007199254740992 \<Longrightarrow> round53 x = x"
  by (simp add: round53_def excess_small nearest_even_one abs_sgn mult.commute sgn_mult_abs)

lemma round53_exact: "\<bar>x\<bar> \<le> 9007199254740992 \<Longrightarrow> round53 x = x"
proof (cases "\<bar>x\<bar> < 9007199254740992")
  case True
  then show ?thesis by (rule round53_small)
next
  case False
  assume "\<bar>x\<bar> \<le> 9007199254740992"
  with False have "x = 9007199254740992 \<or> x = - 9007199254740992"
    by linarith
  then show ?thesis
    by (auto simp add: round53_def excess_small excess_big nearest_even_def)
qed

lemma round53_minus: "round53 (- x) = - round53 x"
  by (simp add: round53_def)

lemma round53_MaxInt: "round53 9223372036854775807 = 9223372036854775808"
  by (simp add: round53_def excess_small excess_big nearest_even_def)

lemma excess_le: "a < 9007199254740992 * 2 ^ k \<Longrightarrow> excess a \<le> k"
proof (induction k arbitrary: a)
  case 0
  then show ?case by (simp add: excess_small)
next
  case (Suc k)
  show ?case
  proof (cases "a < 9007199254740992")
    case True
    then show ?thesis by (simp add: excess_small)
  next
    case False
    from Suc.prems have "a div 2 < 9007199254740992 * 2 ^ k"
      by simp
    from Suc.IH [OF this] False show ?thesis
      by (simp add: excess_big)
  qed
qed

lemma quot_shift_spec:
  "0 < n \<Longrightarrow> 0 < d \<Longrightarrow> n < 4503599627370496 * d \<Longrightarrow>
   4503599627370496 * d \<le> n * 2 ^ quot_shift n d
   \<and> n * 2 ^ quot_shift n d < 9007199254740992 * d"
proof (induction n d rule: quot_shift.induct)
  case (1 n d)
  then have step: "quot_shift n d = Suc (quot_shift (2 * n) d)"
    by (simp add: quot_shift_step)
  show ?case
  proof (cases "4503599627370496 * d \<le> 2 * n")
    case True
    then have "quot_shift (2 * n) d = 0"
      by (simp add: quot_shift_stop)
    with step True "1.prems" show ?thesis by simp
  next
    case False
    with "1.prems" have "4503599627370496 * d \<le> (2 * n) * 2 ^ quot_shift (2 * n) d
       \<and> (2 * n) * 2 ^ quot_shift (2 * n) d < 9007199254740992 * d"
      by (intro "1.IH") simp_all
    with step show ?thesis by (simp add: mult.assoc)
  qed
qed

lemma round53_bounds:
  assumes "0 \<le> a"
  shows "2 ^ excess a * (a div 2 ^ excess a) \<le> round53 a"
    and "2 * round53 a \<le> 2 * a + 2 ^ excess a"
proof -
  let ?E = "(2::int) ^ excess a"
  have E: "0 < ?E" by simp
  note b = nearest_even_bounds [OF E, of a]
  show "?E * (a div ?E) \<le> round53 a"
  proof (cases "a = 0")
    case True
    then show ?thesis by (simp add: round53_def)
  next
    case False
    with assms have "round53 a = ?E * nearest_even a ?E"
      by (simp add: round53_def mult.commute)
    moreover have "?E * (a div ?E) \<le> ?E * nearest_even a ?E"
      using b(1) E by (simp add: mult_left_mono)
    ultimately show ?thesis by simp
  qed
  show "2 * round53 a \<le> 2 * a + ?E"
  proof (cases "a = 0")
    case True
    then show ?thesis by (simp add: round53_def)
  next
    case False
    with assms have "round53 a = ?E * nearest_even a ?E"
      by (simp add: round53_def mult.commute)
    with b(3) show ?thesis by simp
  qed
qed

text \<open>
  Below \<open>2^24\<close> seconds the rounding of \<^verbatim>\<open>Seconds\<close> never reaches the next whole
  second: the number of whole seconds is the exact one.
\<close>

lemma seconds_magnitude_exact:
  assumes "0 \<le> d" and "d < 16777216 * Second"
  shows "seconds_magnitude d = d div Second"
proof -
  define sec where "sec = d div Second"
  define n where "n = d mod Second"
  define s where "s = quot_shift n Second"
  define P where "P = (2::int) ^ s"
  define m where "m = nearest_even (n * P) Second"
  define A where "A = sec * P + m"
  have unfold: "seconds_magnitude d = round53 A div P"
    by (simp add: seconds_magnitude_def A_def m_def P_def s_def n_def sec_def)
  have sec: "0 \<le> sec" "sec \<le> 16777215"
    using assms by (simp_all add: sec_def Second_def pos_imp_zdiv_nonneg_iff)
  have n: "0 \<le> n" "n \<le> 999999999"
    by (simp_all add: n_def Second_def)
  show ?thesis
  proof (cases "n = 0")
    case True
    then have "s = 0" by (simp add: s_def quot_shift_stop)
    then have "P = 1" by (simp add: P_def)
    with True have "A = sec" by (simp add: A_def m_def nearest_even_zero Second_def)
    moreover have "round53 sec = sec"
      using sec by (intro round53_small) simp
    ultimately show ?thesis using unfold \<open>P = 1\<close> by (simp add: sec_def)
  next
    case False
    with n have npos: "0 < n" by simp
    have Ppos: "0 < P" by (simp add: P_def)
    from quot_shift_spec [of n Second] npos n
    have lo: "4503599627370496 * Second \<le> n * P"
      by (simp add: s_def P_def Second_def)
    have nP: "n * P \<le> 999999999 * P"
      using n(2) Ppos by (simp add: mult_right_mono)
    with lo have Pbig: "4503599627370496 < P"
      by (simp add: Second_def)
    have "(2::int) ^ 52 < 2 ^ s"
      using Pbig by (simp add: P_def)
    then have "52 < s"
      by (rule power_less_imp_less_exp [rotated]) simp
    define k where "k = s - 29"
    have k: "s = k + 29"
      using \<open>52 < s\<close> by (simp add: k_def)
    have Pk: "P = 536870912 * 2 ^ k"
      by (simp add: P_def k power_add)
    have mb: "2 * (Second * m) \<le> 2 * (n * P) + Second"
      unfolding m_def by (rule nearest_even_bounds(3)) (simp add: Second_def)
    have m0: "0 \<le> m"
    proof -
      have "0 \<le> (n * P) div Second"
        using npos Ppos by (simp add: Second_def pos_imp_zdiv_nonneg_iff)
      moreover have "(n * P) div Second \<le> m"
        unfolding m_def by (rule nearest_even_bounds(1)) (simp add: Second_def)
      ultimately show ?thesis by simp
    qed
    have m2: "2000000000 * m \<le> 1999999998 * P + 1000000000"
      using mb nP by (simp add: Second_def)
    have mP: "m < P"
      using m2 Pbig by linarith
    have "sec * P \<le> 16777215 * P"
      using sec(2) Ppos by (simp add: mult_right_mono)
    with mP have "A < 16777216 * P"
      by (simp add: A_def)
    then have "A < 9007199254740992 * 2 ^ k"
      by (simp add: Pk)
    then have ek: "excess A \<le> k"
      by (rule excess_le)
    define E where "E = (2::int) ^ excess A"
    have Epos: "0 < E" by (simp add: E_def)
    have "E \<le> 2 ^ k"
      using ek by (simp add: E_def power_increasing)
    then have EP: "536870912 * E \<le> P"
      by (simp add: Pk)
    have es: "excess A \<le> s" using ek k by simp
    define c where "c = (2::int) ^ (s - excess A)"
    have PE: "P = E * c"
      using es by (simp add: P_def E_def c_def power_add [symmetric])
    have A0: "0 \<le> A"
      using sec(1) Ppos m0 by (simp add: A_def)
    note rb = round53_bounds [OF A0, folded E_def]
    have "sec * P \<le> A"
      using m0 by (simp add: A_def)
    then have "(E * (sec * c)) div E \<le> A div E"
      using Epos by (intro zdiv_mono1) (simp_all add: PE algebra_simps)
    then have "sec * c \<le> A div E"
      using Epos by simp
    then have "E * (sec * c) \<le> E * (A div E)"
      using Epos by (simp add: mult_left_mono)
    with rb(1) have lower: "sec * P \<le> round53 A"
      by (simp add: PE algebra_simps)
    have "2 * round53 A \<le> 2 * (sec * P) + 2 * m + E"
      using rb(2) by (simp add: A_def algebra_simps)
    moreover have "2 * m + E < 2 * P"
      using m2 EP Pbig by linarith
    ultimately have upper: "round53 A < sec * P + P"
      by linarith
    have "round53 A div P = sec"
    proof (rule int_div_pos_eq)
      show "round53 A = P * sec + (round53 A - sec * P)" by (simp add: algebra_simps)
      show "0 \<le> round53 A - sec * P" using lower by simp
      show "round53 A - sec * P < P" using upper by simp
    qed
    with unfold show ?thesis by (simp add: sec_def)
  qed
qed

lemma whole_seconds_exact:
  assumes "\<bar>d\<bar> < 16777216 * Second"
  shows "whole_seconds d = go_quot d Second"
proof -
  have "seconds_magnitude \<bar>d\<bar> = \<bar>d\<bar> div Second"
    using assms by (intro seconds_magnitude_exact) simp_all
  then show ?thesis
    by (simp add: whole_seconds_def go_quot_def Second_def sgn_if)
qed

section \<open>Properties of the rating window\<close>

lemma go_quot_nonneg: "0 \<le> a \<Longrightarrow> 0 < b \<Longrightarrow> go_quot a b = a div b"
  by (simp add: go_quot_def)

lemma go_quot_neg: "a < 0 \<Longrightarrow> 0 < b \<Longrightarrow> go_quot a b = - ((- a) div b)"
  by (simp add: go_quot_def)

lemma go_quot_mono:
  assumes "a \<le> a'" and "0 < b"
  shows "go_quot a b \<le> go_quot a' b"
proof (cases "0 \<le> a")
  case True
  with assms show ?thesis
    by (simp add: go_quot_nonneg zdiv_mono1)
next
  case False
  note neg = this
  show ?thesis
  proof (cases "0 \<le> a'")
    case True
    have "go_quot a b \<le> 0"
      using neg assms(2) by (simp add: go_quot_neg pos_imp_zdiv_nonneg_iff)
    moreover have "0 \<le> go_quot a' b"
      using True assms(2) by (simp add: go_quot_nonneg pos_imp_zdiv_nonneg_iff)
    ultimately show ?thesis by simp
  next
    case False
    have "(- a') div b \<le> (- a) div b"
      using assms by (simp add: zdiv_mono1)
    with neg False assms(2) show ?thesis
      by (simp add: go_quot_neg)
  qed
qed

text \<open>
  The slice count \<^verbatim>\<open>int(waitTime.Seconds()) / 30\<close> of a wait time below \<open>2^24\<close>
  seconds in magnitude is the wait time divided by 30 seconds, truncated towards zero.
\<close>

lemma slices_truncated:
  assumes "\<bar>t\<bar> < 16777216 * Second"
  shows "go_quot (whole_seconds t) 30 = go_quot t (30 * Second)"
proof -
  have q: "\<bar>t\<bar> div Second div 30 = \<bar>t\<bar> div (30 * Second)"
    by (simp add: zdiv_zmult2_eq Second_def mult.commute)
  have nn: "0 \<le> \<bar>t\<bar> div Second"
    by (simp add: Second_def pos_imp_zdiv_nonneg_iff)
  show ?thesis
  proof (cases "0 \<le> t")
    case True
    with nn q show ?thesis
      by (simp add: whole_seconds_exact [OF assms] go_quot_def Second_def not_less)
  next
    case False
    then have neg: "t < 0" by simp
    show ?thesis
    proof (cases "\<bar>t\<bar> div Second = 0")
      case True
      with q neg show ?thesis
        by (simp add: whole_seconds_exact [OF assms] go_quot_def Second_def)
    next
      case nz: False
      with nn have "0 < \<bar>t\<bar> div Second" by simp
      with q neg show ?thesis
        by (simp add: whole_seconds_exact [OF assms] go_quot_def Second_def)
    qed
  qed
qed

lemma slices_nonneg:
  "0 \<le> t \<Longrightarrow> t < 16777216 * Second \<Longrightarrow>
   go_quot (whole_seconds t) 30 = t div (30 * Second)"
  using slices_truncated [of t] by (simp add: go_quot_def Second_def)

lemma slices_neg:
  "t < 0 \<Longrightarrow> - 16777216 * Second < t \<Longrightarrow>
   go_quot (whole_seconds t) 30 = - ((- t) div (30 * Second))"
  using slices_truncated [of t] by (simp add: go_quot_def Second_def)

lemma window_saturated: "MaxSearchTime cfg < t \<Longrightarrow> calculateRatingRange cfg t = 1000"
  by (simp add: calculateRatingRange_def)

lemma window_value:
  "t \<le> MaxSearchTime cfg \<Longrightarrow>
   calculateRatingRange cfg t
     = wrap64 (MaxRatingDiff cfg + go_quot (whole_seconds t) 30 * RatingExpansionRate cfg)"
  by (simp add: calculateRatingRange_def wrap64_add_wrap64)

lemma window_truncated:
  assumes "t \<le> MaxSearchTime cfg" and "\<bar>t\<bar> < 16777216 * Second"
    and "is_int64 (MaxRatingDiff cfg + go_quot t (30 * Second) * RatingExpansionRate cfg)"
  shows "calculateRatingRange cfg t
     = MaxRatingDiff cfg + go_quot t (30 * Second) * RatingExpansionRate cfg"
  using assms(3) window_value [OF assms(1)] slices_truncated [OF assms(2)]
  by (simp add: is_int64_def wrap64_id)

lemma window_mono:
  assumes "0 \<le> RatingExpansionRate cfg" and "t1 \<le> t2" and "t2 \<le> MaxSearchTime cfg"
    and "- 16777216 * Second < t1" and "t2 < 16777216 * Second"
    and "is_int64 (MaxRatingDiff cfg + go_quot t1 (30 * Second) * RatingExpansionRate cfg)"
    and "is_int64 (MaxRatingDiff cfg + go_quot t2 (30 * Second) * RatingExpansionRate cfg)"
  shows "calculateRatingRange cfg t1 \<le> calculateRatingRange cfg t2"
proof -
  have r1: "\<bar>t1\<bar> < 16777216 * Second" and r2: "\<bar>t2\<bar> < 16777216 * Second"
    using assms(2,4,5) by (simp_all add: Second_def)
  have m1: "t1 \<le> MaxSearchTime cfg"
    using assms(2,3) by simp
  have "go_quot t1 (30 * Second) \<le> go_quot t2 (30 * Second)"
    using assms(2) by (rule go_quot_mono) (simp add: Second_def)
  then have "go_quot t1 (30 * Second) * RatingExpansionRate cfg
          \<le> go_quot t2 (30 * Second) * RatingExpansionRate cfg"
    using assms(1) by (rule mult_right_mono)
  then show ?thesis
    using window_truncated [OF m1 r1 assms(6)] window_truncated [OF assms(3) r2 assms(7)]
    by simp
qed

text \<open>
  Claim C3, as the code has it, for wait times below \<open>2^24\<close> seconds in magnitude (194
  days) and windows that fit a 64-bit integer. Up to \<open>MaxSearchTime\<close> the window of a
  non-negative wait time \<open>t\<close> is \<open>MaxRatingDiff + floor (t.seconds / 30) *
  RatingExpansionRate\<close>; for a negative wait time \<open>u\<close> the slice count is truncated
  towards zero instead of floored, so the window is \<open>MaxRatingDiff - floor (|u|.seconds
  / 30) * RatingExpansionRate\<close>. With a non-negative expansion rate the window is
  monotonically non-decreasing over these wait times up to \<open>MaxSearchTime\<close>. Beyond
  \<open>MaxSearchTime\<close> the window of every wait time is exactly 1000.
\<close>

theorem C3_window_ramp_and_saturation:
  "(0 \<le> t \<and> t \<le> MaxSearchTime cfg \<and> t < 16777216 * Second
      \<and> is_int64 (MaxRatingDiff cfg + (t div (30 * Second)) * RatingExpansionRate cfg) \<longrightarrow>
      calculateRatingRange cfg t
        = MaxRatingDiff cfg + (t div (30 * Second)) * RatingExpansionRate cfg)
   \<and> (u < 0 \<and> u \<le> MaxSearchTime cfg \<and> - 16777216 * Second < u
      \<and> is_int64 (MaxRatingDiff cfg
                    - ((- u) div (30 * Second)) * RatingExpansionRate cfg) \<longrightarrow>
      calculateRatingRange cfg u
        = MaxRatingDiff cfg - ((- u) div (30 * Second)) * RatingExpansionRate cfg)
   \<and> (0 \<le> RatingExpansionRate cfg \<and> t1 \<le> t2 \<and> t2 \<le> MaxSearchTime cfg
      \<and> - 16777216 * Second < t1 \<and> t2 < 16777216 * Second
      \<and> is_int64 (MaxRatingDiff cfg + go_quot t1 (30 * Second) * RatingExpansionRate cfg)
      \<and> is_int64 (MaxRatingDiff cfg
                    + go_quot t2 (30 * Second) * RatingExpansionRate cfg) \<longrightarrow>
      calculateRatingRange cfg t1 \<le> calculateRatingRange cfg t2)
   \<and> (MaxSearchTime cfg < v \<longrightarrow> calculateRatingRange cfg v = 1000)"
proof (intro conjI impI)
  assume h: "0 \<le> t \<and> t \<le> MaxSearchTime cfg \<and> t < 16777216 * Second
      \<and> is_int64 (MaxRatingDiff cfg + (t div (30 * Second)) * RatingExpansionRate cfg)"
  then have q: "go_quot t (30 * Second) = t div (30 * Second)"
    by (simp add: go_quot_def Second_def)
  from h have "\<bar>t\<bar> < 16777216 * Second" by simp
  with h q window_truncated [of t cfg]
  show "calculateRatingRange cfg t
        = MaxRatingDiff cfg + (t div (30 * Second)) * RatingExpansionRate cfg"
    by simp
next
  assume h: "u < 0 \<and> u \<le> MaxSearchTime cfg \<and> - 16777216 * Second < u
      \<and> is_int64 (MaxRatingDiff cfg - ((- u) div (30 * Second)) * RatingExpansionRate cfg)"
  then have q: "go_quot u (30 * Second) = - ((- u) div (30 * Second))"
    by (simp add: go_quot_def Second_def)
  from h have "\<bar>u\<bar> < 16777216 * Second" by (simp add: Second_def)
  with h q window_truncated [of u cfg]
  show "calculateRatingRange cfg u
        = MaxRatingDiff cfg - ((- u) div (30 * Second)) * RatingExpansionRate cfg"
    by simp
next
  assume "0 \<le> RatingExpansionRate cfg \<and> t1 \<le> t2 \<and> t2 \<le> MaxSearchTime cfg
      \<and> - 16777216 * Second < t1 \<and> t2 < 16777216 * Second
      \<and> is_int64 (MaxRatingDiff cfg + go_quot t1 (30 * Second) * RatingExpansionRate cfg)
      \<and> is_int64 (MaxRatingDiff cfg + go_quot t2 (30 * Second) * RatingExpansionRate cfg)"
  then show "calculateRatingRange cfg t1 \<le> calculateRatingRange cfg t2"
    using window_mono [of cfg t1 t2] by blast
next
  assume "MaxSearchTime cfg < v"
  then show "calculateRatingRange cfg v = 1000"
    by (rule window_saturated)
qed

theorem C3_window_witness:
  "(0 \<le> 61 * Second \<and> 61 * Second \<le> MaxSearchTime DefaultMatcherConfig
      \<and> 61 * Second < 16777216 * Second
      \<and> is_int64 (MaxRatingDiff DefaultMatcherConfig
                    + (61 * Second div (30 * Second))
                        * RatingExpansionRate DefaultMatcherConfig))
   \<and> calculateRatingRange DefaultMatcherConfig (61 * Second) = 300
   \<and> (- 61 * Second < 0 \<and> - 61 * Second \<le> MaxSearchTime DefaultMatcherConfig
        \<and> - 16777216 * Second < - 61 * Second
        \<and> is_int64 (MaxRatingDiff DefaultMatcherConfig
                      - ((- (- 61 * Second)) div (30 * Second))
                          * RatingExpansionRate DefaultMatcherConfig))
   \<and> calculateRatingRange DefaultMatcherConfig (- 61 * Second) = 100
   \<and> (0 \<le> RatingExpansionRate DefaultMatcherConfig \<and> - 61 * Second \<le> 29 * Second
        \<and> 29 * Second \<le> MaxSearchTime DefaultMatcherConfig
        \<and> 29 * Second < 16777216 * Second
        \<and> is_int64 (MaxRatingDiff DefaultMatcherConfig
                      + go_quot (- 61 * Second) (30 * Second)
                          * RatingExpansionRate DefaultMatcherConfig)
        \<and> is_int64 (MaxRatingDiff DefaultMatcherConfig
                      + go_quot (29 * Second) (30 * Second)
                          * RatingExpansionRate DefaultMatcherConfig))
   \<and> calculateRatingRange DefaultMatcherConfig (- 61 * Second)
        \<le> calculateRatingRange DefaultMatcherConfig (29 * Second)
   \<and> MaxSearchTime DefaultMatcherConfig < 301 * Second
   \<and> calculateRatingRange DefaultMatcherConfig (301 * Second) = 1000"
  using C3_window_ramp_and_saturation
    [of "61 * Second" DefaultMatcherConfig "- 61 * Second" "- 61 * Second" "29 * Second"
      "301 * Second"]
  by (simp add: DefaultMatcherConfig_def Second_def Minute_def is_int64_def MinInt_def
      MaxInt_def go_quot_def)

text \<open>
  Claim C3 as stated fails one second before the join time: the specification's floor gives
  \<open>-1\<close> slice and a window of 150, the code truncates to 0 slices and returns 200. It
  fails from \<open>2^24\<close> seconds on, where \<^verbatim>\<open>Seconds\<close> rounds a wait time one nanosecond
  short of a whole second up to that second: with a search time of a year, one
  nanosecond before 16777230 seconds the code counts 559241 slices where the floor gives
  559240. It fails when the sum leaves the 64-bit range: with a rate of \<open>2^62\<close> the
  window of 60 seconds is negative. And the window only grows with the wait time when the
  expansion rate is not negative: with a rate of \<open>-50\<close> it falls from 200 at 0 seconds
  to 150 at 30 seconds.
\<close>

theorem C3_floor_counterexample:
  "- Second \<le> MaxSearchTime DefaultMatcherConfig
   \<and> calculateRatingRange DefaultMatcherConfig (- Second) = 200
   \<and> MaxRatingDiff DefaultMatcherConfig
        + ((- Second) div (30 * Second)) * RatingExpansionRate DefaultMatcherConfig = 150
   \<and> calculateRatingRange DefaultMatcherConfig (- Second)
        \<noteq> window_spec DefaultMatcherConfig (- Second)
   \<and> calculateRatingRange (DefaultMatcherConfig\<lparr>MaxSearchTime := 365 * 24 * 60 * Minute\<rparr>)
        16777229999999999 = 27962250
   \<and> window_spec (DefaultMatcherConfig\<lparr>MaxSearchTime := 365 * 24 * 60 * Minute\<rparr>)
        16777229999999999 = 27962200
   \<and> calculateRatingRange
        (DefaultMatcherConfig\<lparr>RatingExpansionRate := 4611686018427387904\<rparr>) (60 * Second)
        = - 9223372036854775608
   \<and> calculateRatingRange (DefaultMatcherConfig\<lparr>RatingExpansionRate := - 50\<rparr>) 0 = 200
   \<and> calculateRatingRange (DefaultMatcherConfig\<lparr>RatingExpansionRate := - 50\<rparr>)
        (30 * Second) = 150"
proof -
  have small: "whole_seconds (- 1000000000) = - 1" "whole_seconds 0 = 0"
    "whole_seconds 30000000000 = 30" "whole_seconds 60000000000 = 60"
    by (simp_all add: whole_seconds_exact go_quot_def Second_def)
  have big: "whole_seconds 16777229999999999 = 16777230"
    by (simp add: float_run)
  show ?thesis
    by (simp add: calculateRatingRange_def window_spec_def small big go_quot_def wrap64_def
        DefaultMatcherConfig_def Second_def Minute_def)
qed

lemma default_slices_bound:
  "(0 \<le> 200 - (x div 30000000000) * 50) = (x < (150000000000::int))"
proof -
  define q where "q = x div 30000000000"
  define r where "r = x mod 30000000000"
  have x: "x = 30000000000 * q + r"
    by (simp add: q_def r_def)
  have r: "0 \<le> r" "r < 30000000000"
    by (simp_all add: r_def)
  have "q \<le> 4 \<Longrightarrow> x < 150000000000"
    using x r by linarith
  moreover have "x < 150000000000 \<Longrightarrow> q \<le> 4"
    using x r by linarith
  moreover have "(0 \<le> 200 - q * 50) = (q \<le> 4)"
    by linarith
  ultimately show ?thesis unfolding q_def by blast
qed

lemma default_window_nonneg:
  assumes "0 \<le> t"
  shows "200 \<le> calculateRatingRange DefaultMatcherConfig t"
    and "calculateRatingRange DefaultMatcherConfig t \<le> 1000"
proof -
  have "200 \<le> calculateRatingRange DefaultMatcherConfig t
      \<and> calculateRatingRange DefaultMatcherConfig t \<le> 1000"
  proof (cases "MaxSearchTime DefaultMatcherConfig < t")
    case True
    then show ?thesis
      by (simp add: window_saturated)
  next
    case False
    then have le: "t \<le> 300000000000"
      by (simp add: DefaultMatcherConfig_def Minute_def Second_def)
    define q where "q = t div 30000000000"
    define r where "r = t mod 30000000000"
    have t: "t = 30000000000 * q + r" by (simp add: q_def r_def)
    have r: "0 \<le> r" "r < 30000000000" by (simp_all add: r_def)
    have q: "0 \<le> q" "q \<le> 10"
      using t r le assms by linarith+
    have s: "go_quot (whole_seconds t) 30 = q"
      using slices_nonneg [of t] assms le by (simp add: Second_def q_def)
    have "calculateRatingRange DefaultMatcherConfig t = wrap64 (200 + q * 50)"
      using False window_value [of t DefaultMatcherConfig] s
      by (simp add: DefaultMatcherConfig_def)
    also have "\<dots> = 200 + q * 50"
      using q by (intro wrap64_id) (simp_all add: MinInt_def MaxInt_def)
    finally show ?thesis
      using q by simp
  qed
  then show "200 \<le> calculateRatingRange DefaultMatcherConfig t"
    and "calculateRatingRange DefaultMatcherConfig t \<le> 1000"
    by simp_all
qed

text \<open>
  Claim C9, as the code has it. Under the default configuration the window of every wait
  time \<open>t \<ge> 0\<close> (zero included) is non-negative: it lies between 200 and 1000. Under
  any configuration with a non-negative base difference and expansion rate the window of
  a wait time \<open>t \<ge> 0\<close> below \<open>2^24\<close> seconds is non-negative provided that
  \<open>MaxRatingDiff + floor (t.seconds / 30) * RatingExpansionRate\<close> does not exceed the
  largest 64-bit integer. The window of a negative wait time can be negative: under the
  default configuration the window of a wait time \<open>u\<close> later than \<open>2^24\<close> seconds
  before the join time is non-negative exactly when \<open>u\<close> is later than 150 seconds
  before the join time.
\<close>

theorem C9_window_nonneg:
  "(0 \<le> t \<longrightarrow>
      200 \<le> calculateRatingRange DefaultMatcherConfig t
      \<and> calculateRatingRange DefaultMatcherConfig t \<le> 1000)
   \<and> (0 \<le> t \<and> t < 16777216 * Second
        \<and> 0 \<le> MaxRatingDiff cfg \<and> 0 \<le> RatingExpansionRate cfg
        \<and> MaxRatingDiff cfg + (t div (30 * Second)) * RatingExpansionRate cfg \<le> MaxInt \<longrightarrow>
      0 \<le> calculateRatingRange cfg t)
   \<and> (- 16777216 * Second < u \<longrightarrow>
      (0 \<le> calculateRatingRange DefaultMatcherConfig u \<longleftrightarrow> - 150 * Second < u))"
proof (intro conjI impI)
  assume "0 \<le> t"
  then show "200 \<le> calculateRatingRange DefaultMatcherConfig t"
    and "calculateRatingRange DefaultMatcherConfig t \<le> 1000"
    by (rule default_window_nonneg)+
next
  assume h: "0 \<le> t \<and> t < 16777216 * Second
        \<and> 0 \<le> MaxRatingDiff cfg \<and> 0 \<le> RatingExpansionRate cfg
        \<and> MaxRatingDiff cfg + (t div (30 * Second)) * RatingExpansionRate cfg \<le> MaxInt"
  show "0 \<le> calculateRatingRange cfg t"
  proof (cases "MaxSearchTime cfg < t")
    case True
    then show ?thesis by (simp add: window_saturated)
  next
    case False
    from h have "0 \<le> t div (30 * Second)"
      by (simp add: Second_def pos_imp_zdiv_nonneg_iff)
    with h have p: "0 \<le> (t div (30 * Second)) * RatingExpansionRate cfg"
      by simp
    with h have nn: "0 \<le> MaxRatingDiff cfg + (t div (30 * Second)) * RatingExpansionRate cfg"
      by simp
    with h have "is_int64
        (MaxRatingDiff cfg + (t div (30 * Second)) * RatingExpansionRate cfg)"
      by (simp add: is_int64_def MinInt_def)
    moreover from h have "go_quot t (30 * Second) = t div (30 * Second)"
      by (simp add: go_quot_def Second_def)
    moreover from h have "\<bar>t\<bar> < 16777216 * Second" by simp
    ultimately have "calculateRatingRange cfg t
        = MaxRatingDiff cfg + (t div (30 * Second)) * RatingExpansionRate cfg"
      using False window_truncated [of t cfg] by simp
    with nn show ?thesis by simp
  qed
next
  assume lo: "- 16777216 * Second < u"
  show "0 \<le> calculateRatingRange DefaultMatcherConfig u \<longleftrightarrow> - 150 * Second < u"
  proof (cases "0 \<le> u")
    case True
    with default_window_nonneg(1) [of u] show ?thesis
      by (simp add: Second_def)
  next
    case False
    then have neg: "u < 0" by simp
    have b: "(0 \<le> 200 - ((- u) div 30000000000) * 50) = (- 150000000000 < u)"
    proof -
      have "(- u < 150000000000) = (- 150000000000 < u)"
        by linarith
      with default_slices_bound [of "- u"] show ?thesis
        by (simp only:)
    qed
    define q where "q = (- u) div 30000000000"
    define r where "r = (- u) mod 30000000000"
    have u: "- u = 30000000000 * q + r" by (simp add: q_def r_def)
    have r: "0 \<le> r" "r < 30000000000" by (simp_all add: r_def)
    have q: "0 \<le> q" "q \<le> 559241"
      using u r lo neg by (simp_all add: Second_def)
    have s: "go_quot (whole_seconds u) 30 = - q"
      using slices_neg [of u] neg lo by (simp add: Second_def q_def)
    have "calculateRatingRange DefaultMatcherConfig u = wrap64 (200 + (- q) * 50)"
      using neg window_value [of u DefaultMatcherConfig] s
      by (simp add: DefaultMatcherConfig_def Minute_def Second_def)
    also have "\<dots> = 200 + (- q) * 50"
      using q by (intro wrap64_id) (simp_all add: MinInt_def MaxInt_def)
    finally show ?thesis
      using b by (simp add: q_def Second_def)
  qed
qed

theorem C9_window_nonneg_witness:
  "(0::int) \<le> 0 \<and> 200 \<le> calculateRatingRange DefaultMatcherConfig 0
   \<and> (0 \<le> 61 * Second \<and> 61 * Second < 16777216 * Second
        \<and> 0 \<le> MaxRatingDiff DefaultMatcherConfig
        \<and> 0 \<le> RatingExpansionRate DefaultMatcherConfig
        \<and> MaxRatingDiff DefaultMatcherConfig
            + (61 * Second div (30 * Second)) * RatingExpansionRate DefaultMatcherConfig
          \<le> MaxInt)
   \<and> 0 \<le> calculateRatingRange DefaultMatcherConfig (61 * Second)
   \<and> - 16777216 * Second < - 149 * Second
   \<and> 0 \<le> calculateRatingRange DefaultMatcherConfig (- 149 * Second)
   \<and> - 150 * Second < - 149 * Second"
  using C9_window_nonneg [of 0 DefaultMatcherConfig "- 149 * Second"]
    C9_window_nonneg [of "61 * Second" DefaultMatcherConfig "- 149 * Second"]
  by (simp add: DefaultMatcherConfig_def Second_def MaxInt_def)

text \<open>
  Claim C9 as stated fails for a wait time of minus 150 seconds: five negative slices take
  250 off the base difference of 200. It also fails for a non-negative wait time when the
  sum leaves the 64-bit range: with a base difference of 200 and a rate of \<open>2^62\<close> the
  window of 60 seconds is negative.
\<close>

theorem C9_negative_window_counterexample:
  "calculateRatingRange DefaultMatcherConfig (- 150 * Second) = - 50
   \<and> calculateRatingRange DefaultMatcherConfig (- 150 * Second) < 0
   \<and> calculateRatingRange
        (DefaultMatcherConfig\<lparr>RatingExpansionRate := 4611686018427387904\<rparr>) (60 * Second)
       < 0"
proof -
  have small: "whole_seconds (- 150000000000) = - 150" "whole_seconds 60000000000 = 60"
    by (simp_all add: whole_seconds_exact go_quot_def Second_def)
  show ?thesis
    using small
    by (simp add: calculateRatingRange_def go_quot_def wrap64_def
        DefaultMatcherConfig_def Second_def Minute_def)
qed

section \<open>Properties of the compatibility predicate\<close>

lemma rating_diff_symmetric:
  "\<bar>round53 (wrap64 (b - a))\<bar> = \<bar>round53 (wrap64 (a - b))\<bar>"
proof -
  have "wrap64 (b - a) = wrap64 (- (a - b))" by simp
  also have "\<dots> = (if wrap64 (a - b) = MinInt then MinInt else - wrap64 (a - b))"
    by (rule wrap64_minus)
  finally show ?thesis
    by (simp add: round53_minus)
qed

lemma rating_diff_exact:
  assumes "\<bar>a - b\<bar> \<le> 9007199254740992"
  shows "float64_to_int \<bar>round53 (wrap64 (a - b))\<bar> = \<bar>a - b\<bar>"
proof -
  have "wrap64 (a - b) = a - b"
    using assms by (intro wrap64_id) (simp_all add: MinInt_def MaxInt_def)
  moreover have "round53 (a - b) = a - b"
    using assms by (rule round53_exact)
  moreover have "0 \<le> \<bar>a - b\<bar>"
    by simp
  then have "- 9223372036854775808 \<le> \<bar>a - b\<bar>"
    by linarith
  ultimately show ?thesis
    using assms by (simp add: float64_to_int_def MinInt_def MaxInt_def)
qed

text \<open>
  Claim C7, as the code has it. \<open>isCompatible\<close> is symmetric in its two players; it is
  false whenever the regions or the game modes differ, whatever the ratings; and for two
  players whose ratings differ by at most \<open>2^53\<close> it is true exactly when the regions
  are equal, the game modes are equal and the absolute rating difference is at most the
  configured maximum rating difference.
\<close>

theorem C7_isCompatible_symmetric_conjunctive:
  "isCompatible cfg a b = isCompatible cfg b a
   \<and> (Region a \<noteq> Region b \<or> GameMode a \<noteq> GameMode b \<longrightarrow> \<not> isCompatible cfg a b)
   \<and> (\<bar>Rating a - Rating b\<bar> \<le> 9007199254740992 \<longrightarrow>
        (isCompatible cfg a b \<longleftrightarrow>
           Region a = Region b \<and> GameMode a = GameMode b
           \<and> \<bar>Rating a - Rating b\<bar> \<le> MaxRatingDiff cfg))"
proof (intro conjI impI)
  show "isCompatible cfg a b = isCompatible cfg b a"
    using rating_diff_symmetric [of "Rating b" "Rating a"]
    by (auto simp add: isCompatible_def Let_def)
next
  assume "Region a \<noteq> Region b \<or> GameMode a \<noteq> GameMode b"
  then show "\<not> isCompatible cfg a b"
    by (auto simp add: isCompatible_def)
next
  assume "\<bar>Rating a - Rating b\<bar> \<le> 9007199254740992"
  from rating_diff_exact [OF this]
  show "isCompatible cfg a b \<longleftrightarrow>
           Region a = Region b \<and> GameMode a = GameMode b
           \<and> \<bar>Rating a - Rating b\<bar> \<le> MaxRatingDiff cfg"
    by (auto simp add: isCompatible_def Let_def)
qed

theorem C7_isCompatible_witness:
  "Region (queued ''a'' 1500 ''EU'' ''3v3'') \<noteq> Region (queued ''b'' 1500 ''US'' ''3v3'')
   \<and> \<not> isCompatible DefaultMatcherConfig
        (queued ''a'' 1500 ''EU'' ''3v3'') (queued ''b'' 1500 ''US'' ''3v3'')
   \<and> \<bar>Rating (queued ''a'' 1500 ''EU'' ''3v3'') - Rating (queued ''c'' 1700 ''EU'' ''3v3'')\<bar>
       \<le> 9007199254740992
   \<and> isCompatible DefaultMatcherConfig
        (queued ''a'' 1500 ''EU'' ''3v3'') (queued ''c'' 1700 ''EU'' ''3v3'')
   \<and> isCompatible DefaultMatcherConfig
        (queued ''c'' 1700 ''EU'' ''3v3'') (queued ''a'' 1500 ''EU'' ''3v3'')
   \<and> \<bar>Rating (queued ''a'' 1500 ''EU'' ''3v3'') - Rating (queued ''d'' 1701 ''EU'' ''3v3'')\<bar>
       \<le> 9007199254740992
   \<and> \<not> isCompatible DefaultMatcherConfig
        (queued ''a'' 1500 ''EU'' ''3v3'') (queued ''d'' 1701 ''EU'' ''3v3'')"
proof -
  let ?a = "queued ''a'' 1500 ''EU'' ''3v3''"
  let ?b = "queued ''b'' 1500 ''US'' ''3v3''"
  let ?c = "queued ''c'' 1700 ''EU'' ''3v3''"
  let ?d = "queued ''d'' 1701 ''EU'' ''3v3''"
  note ib = C7_isCompatible_symmetric_conjunctive [of DefaultMatcherConfig ?a ?b]
  note ic = C7_isCompatible_symmetric_conjunctive [of DefaultMatcherConfig ?a ?c]
  note id = C7_isCompatible_symmetric_conjunctive [of DefaultMatcherConfig ?a ?d]
  have rb: "Region ?a \<noteq> Region ?b"
    by (simp add: queued_def)
  have sc: "\<bar>Rating ?a - Rating ?c\<bar> \<le> 9007199254740992"
    "Region ?a = Region ?c \<and> GameMode ?a = GameMode ?c
       \<and> \<bar>Rating ?a - Rating ?c\<bar> \<le> MaxRatingDiff DefaultMatcherConfig"
    by (simp_all add: queued_def DefaultMatcherConfig_def)
  have sd: "\<bar>Rating ?a - Rating ?d\<bar> \<le> 9007199254740992"
    "\<not> \<bar>Rating ?a - Rating ?d\<bar> \<le> MaxRatingDiff DefaultMatcherConfig"
    by (simp_all add: queued_def DefaultMatcherConfig_def)
  from ib rb have nb: "\<not> isCompatible DefaultMatcherConfig ?a ?b"
    by blast
  from ic sc have c1: "isCompatible DefaultMatcherConfig ?a ?c"
    by blast
  with ic have c2: "isCompatible DefaultMatcherConfig ?c ?a"
    by blast
  from id sd have nd: "\<not> isCompatible DefaultMatcherConfig ?a ?d"
    by blast
  from rb nb sc(1) c1 c2 sd(1) nd show ?thesis
    by (intro conjI)
qed

text \<open>
  Claim C7 as stated fails at the ends of the 64-bit range. Two players of one region and
  game mode with the ratings \<open>MaxInt\<close> and \<open>-9223372036854775708\<close> are
  \<open>2^64 - 101\<close> apart; the subtraction wraps to \<open>-101\<close> and the players are compatible
  under a maximum difference of 200. And a rating of \<open>MaxInt\<close> against a rating of 0
  converts to the \<^verbatim>\<open>float64\<close> \<open>2^63\<close>, which is outside the range of \<^verbatim>\<open>int\<close>:
  the conversion returns \<open>MinInt\<close> and the players are compatible.
\<close>

theorem C7_wrapped_difference_counterexample:
  "isCompatible DefaultMatcherConfig
      (queued ''a'' MaxInt ''EU'' ''3v3'')
      (queued ''b'' (- 9223372036854775708) ''EU'' ''3v3'')
   \<and> \<not> \<bar>Rating (queued ''a'' MaxInt ''EU'' ''3v3'')
          - Rating (queued ''b'' (- 9223372036854775708) ''EU'' ''3v3'')\<bar>
        \<le> MaxRatingDiff DefaultMatcherConfig
   \<and> is_int64 (Rating (queued ''a'' MaxInt ''EU'' ''3v3''))
   \<and> is_int64 (Rating (queued ''b'' (- 9223372036854775708) ''EU'' ''3v3''))
   \<and> isCompatible DefaultMatcherConfig
      (queued ''a'' MaxInt ''EU'' ''3v3'') (queued ''c'' 0 ''EU'' ''3v3'')
   \<and> \<not> \<bar>Rating (queued ''a'' MaxInt ''EU'' ''3v3'') - Rating (queued ''c'' 0 ''EU'' ''3v3'')\<bar>
        \<le> MaxRatingDiff DefaultMatcherConfig"
proof -
  have w: "wrap64 (MaxInt - (- 9223372036854775708)) = - 101" "wrap64 (MaxInt - 0) = MaxInt"
    by (simp_all add: wrap64_def MaxInt_def)
  have r: "round53 (- 101) = - 101" "round53 MaxInt = 9223372036854775808"
    by (simp_all add: round53_small round53_MaxInt MaxInt_def)
  have c: "float64_to_int \<bar>- 101\<bar> = 101" "float64_to_int \<bar>9223372036854775808\<bar> = MinInt"
    by (simp_all add: float64_to_int_def MinInt_def MaxInt_def)
  show ?thesis
    using w r c
    by (simp add: isCompatible_def queued_def DefaultMatcherConfig_def is_int64_def
        MinInt_def MaxInt_def)
qed

section \<open>The storage calls and their effect\<close>

lemma redis_fails_eq:
  "redis_fails w = (faults w \<noteq> [] \<and> hd (faults w), w\<lparr>faults := tl (faults w)\<rparr>)"
  by (cases "faults w") (simp_all add: redis_fails_def)

lemma RemovePlayerFromQueue_frame:
  assumes "RemovePlayerFromQueue w playerID = (r, w')"
  shows "matchKeys w' = matchKeys w" and "clock w' = clock w"
    and "calls w' = calls w @ [RemoveCall playerID (r = None)]"
  using assms
  by (auto simp add: RemovePlayerFromQueue_def redis_fails_eq returned_def logger_def Let_def
      split: if_splits option.splits)

lemma SaveMatch_calls:
  assumes "SaveMatch w m = (r, w')"
  shows "calls w' = calls w @ [SaveCall m (r = None)]" and "clock w' = clock w"
    and "zsets w' = zsets w" and "playerKeys w' = playerKeys w"
  using assms
  by (auto simp add: SaveMatch_def redis_fails_eq returned_def Let_def split: if_splits)

lemma scanCandidates_prefix:
  "\<exists>accepted. scanCandidates cfg playerID cur n cands mp = mp @ accepted
     \<and> set accepted \<subseteq> {c \<in> set cands. ID c \<noteq> playerID \<and> isCompatible cfg cur c}"
proof (induction cands arbitrary: mp)
  case Nil
  then show ?case by simp
next
  case (Cons c cands)
  show ?case
  proof (cases "ID c \<noteq> playerID \<and> isCompatible cfg cur c")
    case False
    with Cons.IH [of mp] show ?thesis by auto
  next
    case True
    show ?thesis
    proof (cases "n \<le> length (mp @ [c])")
      case True
      with \<open>ID c \<noteq> playerID \<and> isCompatible cfg cur c\<close> show ?thesis by simp
    next
      case False
      from Cons.IH [of "mp @ [c]"] obtain accepted where
        a: "scanCandidates cfg playerID cur n cands (mp @ [c]) = (mp @ [c]) @ accepted"
        and b: "set accepted \<subseteq> {c \<in> set cands. ID c \<noteq> playerID \<and> isCompatible cfg cur c}"
        by blast
      have "scanCandidates cfg playerID cur n (c # cands) mp = mp @ (c # accepted)"
        using True False a by simp
      moreover have "set (c # accepted)
          \<subseteq> {x \<in> set (c # cands). ID x \<noteq> playerID \<and> isCompatible cfg cur x}"
        using True b by auto
      ultimately show ?thesis by blast
    qed
  qed
qed

lemma scanCandidates_length:
  "length mp < n \<Longrightarrow> length (scanCandidates cfg playerID cur n cands mp) \<le> n"
  by (induction cands arbitrary: mp) auto

lemma buildGroup_prefix:
  "buildGroup cfg n anchor ps grp used = (grp', used') \<Longrightarrow>
   \<exists>joined. grp' = grp @ joined
     \<and> set joined \<subseteq> {p \<in> set ps. isCompatible cfg anchor p \<and> ID p \<notin> used}
     \<and> used' = used \<union> ID ` set joined"
proof (induction ps arbitrary: grp used)
  case Nil
  then show ?case by simp
next
  case (Cons p ps)
  show ?case
  proof (cases "length grp < n")
    case False
    with Cons.prems show ?thesis by simp
  next
    case True
    note room = this
    show ?thesis
    proof (cases "ID p \<notin> used \<and> isCompatible cfg anchor p")
      case False
      with room Cons.prems have "buildGroup cfg n anchor ps grp used = (grp', used')"
        by (auto split: if_splits)
      from Cons.IH [OF this] show ?thesis by auto
    next
      case True
      with room Cons.prems
      have "buildGroup cfg n anchor ps (grp @ [p]) (insert (ID p) used) = (grp', used')"
        by simp
      from Cons.IH [OF this] obtain joined where
        j: "grp' = (grp @ [p]) @ joined"
        "set joined \<subseteq> {q \<in> set ps. isCompatible cfg anchor q \<and> ID q \<notin> insert (ID p) used}"
        "used' = insert (ID p) used \<union> ID ` set joined"
        by blast
      have "grp' = grp @ (p # joined)" using j(1) by simp
      moreover have "set (p # joined)
          \<subseteq> {q \<in> set (p # ps). isCompatible cfg anchor q \<and> ID q \<notin> used}"
        using True j(2) by auto
      moreover have "used' = used \<union> ID ` set (p # joined)"
        using j(3) by auto
      ultimately show ?thesis by blast
    qed
  qed
qed

lemma buildGroup_length:
  "buildGroup cfg n anchor ps grp used = (grp', used') \<Longrightarrow> length grp \<le> n \<Longrightarrow>
   length grp' \<le> n"
  by (induction ps arbitrary: grp used) (auto split: if_splits)

lemma removeMatched_frame:
  "matchKeys (removeMatched w ps) = matchKeys w \<and> clock (removeMatched w ps) = clock w"
proof (induction ps arbitrary: w)
  case Nil
  then show ?case by simp
next
  case (Cons p ps)
  obtain r w1 where r: "RemovePlayerFromQueue w (ID p) = (r, w1)"
    by (cases "RemovePlayerFromQueue w (ID p)")
  from RemovePlayerFromQueue_frame [OF r] Cons.IH show ?case
    using r by (cases r) (simp_all add: logger_def)
qed

lemma removeMatched_calls:
  "\<exists>rs ls. calls (removeMatched w ps) = calls w @ rs
     \<and> logged (removeMatched w ps) = logged w @ ls
     \<and> map removal_of rs = map (\<lambda>p. Some (ID p)) ps
     \<and> (\<forall>pid. RemoveCall pid False \<in> set rs \<longrightarrow>
           LogWarn ''Failed to remove player from queue'' [pid] \<in> set ls)"
proof (induction ps arbitrary: w)
  case Nil
  then show ?case by simp
next
  case (Cons p ps)
  obtain r w1 where r: "RemovePlayerFromQueue w (ID p) = (r, w1)"
    by (cases "RemovePlayerFromQueue w (ID p)")
  have c1: "calls w1 = calls w @ [RemoveCall (ID p) (r = None)]"
    using RemovePlayerFromQueue_frame(3) [OF r] .
  obtain l1 where l1: "logged w1 = logged w @ l1"
    using r
    by (auto simp add: RemovePlayerFromQueue_def redis_fails_eq returned_def logger_def Let_def
        split: if_splits option.splits)
  show ?case
  proof (cases r)
    case None
    from Cons.IH [of w1] obtain rs ls where
      h: "calls (removeMatched w1 ps) = calls w1 @ rs"
      "logged (removeMatched w1 ps) = logged w1 @ ls"
      "map removal_of rs = map (\<lambda>p. Some (ID p)) ps"
      "\<forall>pid. RemoveCall pid False \<in> set rs \<longrightarrow>
           LogWarn ''Failed to remove player from queue'' [pid] \<in> set ls"
      by blast
    have "calls (removeMatched w (p # ps)) = calls w @ (RemoveCall (ID p) True # rs)"
      using r None c1 h(1) by simp
    moreover have "logged (removeMatched w (p # ps)) = logged w @ (l1 @ ls)"
      using r None l1 h(2) by simp
    moreover have "map removal_of (RemoveCall (ID p) True # rs)
        = map (\<lambda>p. Some (ID p)) (p # ps)"
      using h(3) by simp
    moreover have "\<forall>pid. RemoveCall pid False \<in> set (RemoveCall (ID p) True # rs) \<longrightarrow>
           LogWarn ''Failed to remove player from queue'' [pid] \<in> set (l1 @ ls)"
      using h(4) by auto
    ultimately show ?thesis by blast
  next
    case (Some e)
    let ?w2 = "logger (LogWarn ''Failed to remove player from queue'' [ID p]) w1"
    from Cons.IH [of ?w2] obtain rs ls where
      h: "calls (removeMatched ?w2 ps) = calls ?w2 @ rs"
      "logged (removeMatched ?w2 ps) = logged ?w2 @ ls"
      "map removal_of rs = map (\<lambda>p. Some (ID p)) ps"
      "\<forall>pid. RemoveCall pid False \<in> set rs \<longrightarrow>
           LogWarn ''Failed to remove player from queue'' [pid] \<in> set ls"
      by blast
    have "calls (removeMatched w (p # ps)) = calls w @ (RemoveCall (ID p) False # rs)"
      using r Some c1 h(1) by (simp add: logger_def)
    moreover have "logged (removeMatched w (p # ps))
        = logged w @ (l1 @ LogWarn ''Failed to remove player from queue'' [ID p] # ls)"
      using r Some l1 h(2) by (simp add: logger_def)
    moreover have "map removal_of (RemoveCall (ID p) False # rs)
        = map (\<lambda>p. Some (ID p)) (p # ps)"
      using h(3) by simp
    moreover have "\<forall>pid. RemoveCall pid False \<in> set (RemoveCall (ID p) False # rs) \<longrightarrow>
           LogWarn ''Failed to remove player from queue'' [pid]
             \<in> set (l1 @ LogWarn ''Failed to remove player from queue'' [ID p] # ls)"
      using h(4) by auto
    ultimately show ?thesis by blast
  qed
qed

lemma persistBeforeRemove_removals:
  "map removal_of rs = map Some ids \<Longrightarrow>
   persistBeforeRemove (ids @ pending) (rs @ cs) = persistBeforeRemove pending cs"
proof (induction rs arbitrary: ids)
  case Nil
  then show ?case by simp
next
  case (Cons r rs)
  then obtain q qs where ids: "ids = q # qs" by (cases ids) auto
  with Cons.prems obtain ok where r: "r = RemoveCall q ok"
    by (cases r) auto
  from Cons.prems ids have "map removal_of rs = map Some qs" by simp
  from Cons.IH [OF this] show ?case using ids r by simp
qed

lemma saveOrWarn_effect:
  "\<exists>ok. calls (saveOrWarn w m) = calls w @ [SaveCall m ok]
     \<and> (ok \<longrightarrow> logged (saveOrWarn w m) = logged w
            \<and> matchKeys (saveOrWarn w m)
                = foldl (\<lambda>km p. km(ID p \<mapsto> m)) (matchKeys w) (Players m))
     \<and> (\<not> ok \<longrightarrow> logged (saveOrWarn w m)
                     = logged w @ [LogWarn ''Failed to save match'' [MatchID m]]
            \<and> matchKeys (saveOrWarn w m) = matchKeys w)"
  by (cases "faults w \<noteq> [] \<and> hd (faults w)")
    (auto simp add: saveOrWarn_def SaveMatch_def redis_fails_eq returned_def logger_def)

lemma saveOrWarn_frame:
  "zsets (saveOrWarn w m) = zsets w" "playerKeys (saveOrWarn w m) = playerKeys w"
  "clock (saveOrWarn w m) = clock w"
  by (auto simp add: saveOrWarn_def SaveMatch_def redis_fails_eq returned_def logger_def)

lemma saved_for_members:
  "p \<in> set ps \<Longrightarrow> foldl (\<lambda>km p. km(ID p \<mapsto> m)) km0 ps (ID p) = Some m"
  by (induction ps arbitrary: km0 rule: rev_induct) auto

lemma saved_for_others:
  "k \<notin> ID ` set ps \<Longrightarrow> foldl (\<lambda>km p. km(ID p \<mapsto> m)) km0 ps k = km0 k"
  by (induction ps arbitrary: km0) auto

lemma GetPlayerByID_effect:
  assumes "GetPlayerByID w playerID = (r, w')"
  shows "calls w' = calls w @ [GetPlayerCall playerID]"
    and "zsets w' = zsets w" and "playerKeys w' = playerKeys w" and "matchKeys w' = matchKeys w"
    and "logged w' = logged w" and "clock w' = clock w"
    and "r = Inr p \<Longrightarrow> playerKeys w (playerKey playerID) = Some p"
  using assms
  by (auto simp add: GetPlayerByID_def redis_fails_eq returned_def Let_def
      split: if_splits option.splits)

lemma GetPlayersInRange_effect:
  assumes "GetPlayersInRange w region gameMode lo hi limit = (r, w')"
  shows "calls w' = calls w @ [RangeCall region gameMode lo hi limit]"
    and "zsets w' = zsets w" and "playerKeys w' = playerKeys w" and "matchKeys w' = matchKeys w"
    and "logged w' = logged w" and "clock w' = clock w"
    and "r = Inr ps \<Longrightarrow> ps = ZRangeByScore (zsets w (queueKey region gameMode)) lo hi limit"
    and "r = Inl e \<Longrightarrow> e = FailedToGetPlayersInRange"
  using assms
  by (auto simp add: GetPlayersInRange_def redis_fails_eq returned_def Let_def
      split: if_splits)

lemma GetMatchByPlayerID_effect:
  assumes "GetMatchByPlayerID w playerID = (r, w')"
  shows "calls w' = calls w @ [GetMatchCall playerID]"
    and "zsets w' = zsets w" and "playerKeys w' = playerKeys w" and "matchKeys w' = matchKeys w"
    and "logged w' = logged w" and "clock w' = clock w"
    and "r = Inr m \<Longrightarrow> matchKeys w playerID = Some m"
  using assms
  by (auto simp add: GetMatchByPlayerID_def redis_fails_eq returned_def Let_def
      split: if_splits option.splits)

lemma FindMatch_cases:
  assumes "FindMatch cfg w playerID = (r, w')"
  obtains
    (saved) m where "matchKeys w playerID = Some m" and "r = Inr m"
      and "calls w' = calls w @ [GetMatchCall playerID]"
      and "logged w' = logged w @ [LogInfo ''Returning saved match'' [MatchID m, playerID]]"
      and "zsets w' = zsets w" and "playerKeys w' = playerKeys w"
      and "matchKeys w' = matchKeys w"
  | (failed) e reads where "\<exists>e0. fst (GetMatchByPlayerID w playerID) = Inl e0"
      and "r = Inl e"
      and "calls w' = calls w @ reads" and "\<forall>c\<in>set reads. is_read c"
      and "zsets w' = zsets w" and "playerKeys w' = playerKeys w"
      and "matchKeys w' = matchKeys w" and "logged w' = logged w"
  | (matched) currentPlayer candidates w3 matchPlayers m where
      "\<exists>e0. fst (GetMatchByPlayerID w playerID) = Inl e0"
      and "playerKeys w (playerKey playerID) = Some currentPlayer"
      and "candidates = ZRangeByScore
             (zsets w (queueKey (Region currentPlayer) (GameMode currentPlayer)))
             (wrap64 (Rating currentPlayer
                - calculateRatingRange cfg (Since w (JoinedAt currentPlayer))))
             (wrap64 (Rating currentPlayer
                + calculateRatingRange cfg (Since w (JoinedAt currentPlayer))))
             (int (GetPlayersPerMatch (GameMode currentPlayer) * 2))"
      and "matchPlayers = scanCandidates cfg playerID currentPlayer
             (GetPlayersPerMatch (GameMode currentPlayer)) candidates [currentPlayer]"
      and "GetPlayersPerMatch (GameMode currentPlayer) \<le> length matchPlayers"
      and "m = \<lparr>MatchID = newMatchID (clock w), Players = matchPlayers, CreatedAt = clock w\<rparr>"
      and "r = Inr m"
      and "w' = logger (LogInfo ''Match found'' [MatchID m])
                  (removeMatched (saveOrWarn w3 m) matchPlayers)"
      and "\<exists>reads. calls w3 = calls w @ reads \<and> (\<forall>c\<in>set reads. is_read c)"
      and "zsets w3 = zsets w" and "playerKeys w3 = playerKeys w"
      and "matchKeys w3 = matchKeys w" and "logged w3 = logged w"
proof -
  obtain r1 w1 where l: "GetMatchByPlayerID w playerID = (r1, w1)"
    by (cases "GetMatchByPlayerID w playerID")
  note e1 = GetMatchByPlayerID_effect [OF l]
  show ?thesis
  proof (cases r1)
    case (Inr m)
    with assms l have "r = Inr m"
      and "w' = logger (LogInfo ''Returning saved match'' [MatchID m, playerID]) w1"
      by (auto simp add: FindMatch_def)
    with e1 Inr show ?thesis
      by (intro saved [of m]) (simp_all add: logger_def)
  next
    case miss: (Inl e0)
    with l have none: "\<exists>e0. fst (GetMatchByPlayerID w playerID) = Inl e0"
      by simp
    obtain r2 w2 where g: "GetPlayerByID w1 playerID = (r2, w2)"
      by (cases "GetPlayerByID w1 playerID")
    note e2 = GetPlayerByID_effect [OF g]
    have c2: "calls w2 = calls w @ [GetMatchCall playerID, GetPlayerCall playerID]"
      using e1(1) e2(1) by simp
    show ?thesis
    proof (cases r2)
      case (Inl e)
      with assms l miss g have "r = Inl (PlayerNotFoundInQueue e)" and "w' = w2"
        by (auto simp add: FindMatch_def)
      with none c2 e1 e2 show ?thesis
        by (intro failed [of "PlayerNotFoundInQueue e"
              "[GetMatchCall playerID, GetPlayerCall playerID]"])
          (simp_all add: is_read_def)
    next
      case (Inr cur)
      let ?n = "GetPlayersPerMatch (GameMode cur)"
      let ?rr = "calculateRatingRange cfg (Since w2 (JoinedAt cur))"
      obtain r3 w3 where q: "GetPlayersInRange w2 (Region cur) (GameMode cur)
          (wrap64 (Rating cur - ?rr)) (wrap64 (Rating cur + ?rr)) (int (?n * 2)) = (r3, w3)"
        by (cases "GetPlayersInRange w2 (Region cur) (GameMode cur)
          (wrap64 (Rating cur - ?rr)) (wrap64 (Rating cur + ?rr)) (int (?n * 2))")
      note e3 = GetPlayersInRange_effect [OF q]
      have c3: "calls w3 = calls w @ [GetMatchCall playerID, GetPlayerCall playerID,
          RangeCall (Region cur) (GameMode cur) (wrap64 (Rating cur - ?rr))
            (wrap64 (Rating cur + ?rr)) (int (?n * 2))]"
        using e3(1) c2 by simp
      have fr: "zsets w3 = zsets w" "playerKeys w3 = playerKeys w"
        "matchKeys w3 = matchKeys w" "logged w3 = logged w" "clock w3 = clock w"
        "clock w2 = clock w"
        using e1 e2 e3 by simp_all
      have since: "Since w2 (JoinedAt cur) = Since w (JoinedAt cur)"
        using fr(6) by (simp add: Since_def)
      have rd: "\<exists>reads. calls w3 = calls w @ reads \<and> (\<forall>c\<in>set reads. is_read c)"
        using c3 by (simp add: is_read_def)
      show ?thesis
      proof (cases r3)
        case (Inl e)
        with assms l miss g Inr q have "r = Inl (FailedToGetCandidates e)" and "w' = w3"
          by (auto simp add: FindMatch_def Let_def)
        with none rd fr show ?thesis
          by (auto intro: failed)
      next
        case cands: (Inr candidates)
        let ?mp = "scanCandidates cfg playerID cur ?n candidates [cur]"
        show ?thesis
        proof (cases "?n \<le> length ?mp")
          case False
          with assms l miss g Inr q cands have "r = Inl NoSuitableMatchFound" and "w' = w3"
            by (auto simp add: FindMatch_def Let_def)
          with none rd fr show ?thesis
            by (auto intro: failed)
        next
          case True
          let ?m = "\<lparr>MatchID = newMatchID (clock w), Players = ?mp, CreatedAt = clock w\<rparr>"
          from True assms l miss g Inr q cands fr(5)
          have "r = Inr ?m"
            and "w' = logger (LogInfo ''Match found'' [MatchID ?m])
                    (removeMatched (saveOrWarn w3 ?m) ?mp)"
            by (auto simp add: FindMatch_def Let_def)
          moreover have "playerKeys w (playerKey playerID) = Some cur"
            using e2(7) [of cur] Inr e1(3) by simp
          moreover have "candidates = ZRangeByScore
               (zsets w (queueKey (Region cur) (GameMode cur)))
               (wrap64 (Rating cur - calculateRatingRange cfg (Since w (JoinedAt cur))))
               (wrap64 (Rating cur + calculateRatingRange cfg (Since w (JoinedAt cur))))
               (int (?n * 2))"
            using e3(7) [of candidates] cands e2(2) e1(2) since by simp
          ultimately show ?thesis
            using none True rd fr
            by (intro matched [of cur candidates ?mp ?m w3]) simp_all
        qed
      qed
    qed
  qed
qed

lemma removals_only:
  assumes "map removal_of rs = map Some ids"
  shows "SaveCall m ok \<notin> set rs"
proof
  assume "SaveCall m ok \<in> set rs"
  then have "removal_of (SaveCall m ok) \<in> set (map removal_of rs)"
    by (metis image_eqI set_map)
  with assms show False by auto
qed

lemma removals_cover:
  assumes "map removal_of rs = map Some ids" and "q \<in> set ids"
  shows "\<exists>ok. RemoveCall q ok \<in> set rs"
proof -
  from assms have "Some q \<in> set (map removal_of rs)" by simp
  then obtain c where c: "c \<in> set rs" "removal_of c = Some q" by auto
  from c(2) have "\<exists>ok. c = RemoveCall q ok"
    by (cases c rule: store_call.exhaust) auto
  with c(1) show ?thesis by auto
qed

lemma persistBeforeRemove_append:
  "persistBeforeRemove pending cs1 \<Longrightarrow> persistBeforeRemove [] cs2 \<Longrightarrow>
   persistBeforeRemove pending (cs1 @ cs2)"
  by (induction pending cs1 rule: persistBeforeRemove.induct) (auto split: list.splits)

lemma matched_step:
  fixes w :: world and m :: Match
  defines "w5 \<equiv> removeMatched (saveOrWarn w m) (Players m)"
  shows "\<exists>ok rs ls. calls w5 = calls w @ SaveCall m ok # rs
     \<and> logged w5 = logged w @ ls
     \<and> map removal_of rs = map Some (map ID (Players m))
     \<and> (\<forall>pid. RemoveCall pid False \<in> set rs \<longrightarrow>
           LogWarn ''Failed to remove player from queue'' [pid] \<in> set ls)
     \<and> (ok \<longrightarrow> matchKeys w5 = foldl (\<lambda>km p. km(ID p \<mapsto> m)) (matchKeys w) (Players m))
     \<and> (\<not> ok \<longrightarrow> matchKeys w5 = matchKeys w
            \<and> LogWarn ''Failed to save match'' [MatchID m] \<in> set ls)"
proof -
  from saveOrWarn_effect [of w m] obtain ok where
    s: "calls (saveOrWarn w m) = calls w @ [SaveCall m ok]"
    "ok \<longrightarrow> logged (saveOrWarn w m) = logged w
            \<and> matchKeys (saveOrWarn w m)
                = foldl (\<lambda>km p. km(ID p \<mapsto> m)) (matchKeys w) (Players m)"
    "\<not> ok \<longrightarrow> logged (saveOrWarn w m)
                     = logged w @ [LogWarn ''Failed to save match'' [MatchID m]]
            \<and> matchKeys (saveOrWarn w m) = matchKeys w"
    by blast
  from removeMatched_calls [of "saveOrWarn w m" "Players m"] obtain rs ls where
    r: "calls w5 = calls (saveOrWarn w m) @ rs"
    "logged w5 = logged (saveOrWarn w m) @ ls"
    "map removal_of rs = map (\<lambda>p. Some (ID p)) (Players m)"
    "\<forall>pid. RemoveCall pid False \<in> set rs \<longrightarrow>
           LogWarn ''Failed to remove player from queue'' [pid] \<in> set ls"
    unfolding w5_def by blast
  have mk: "matchKeys w5 = matchKeys (saveOrWarn w m)"
    unfolding w5_def using removeMatched_frame by blast
  show ?thesis
  proof (cases ok)
    case True
    with s r mk show ?thesis
      by (intro exI [of _ True] exI [of _ rs] exI [of _ ls]) (simp add: comp_def)
  next
    case False
    with s r mk show ?thesis
      by (intro exI [of _ False] exI [of _ rs]
          exI [of _ "LogWarn ''Failed to save match'' [MatchID m] # ls"])
        (auto simp add: comp_def)
  qed
qed

lemma isCompatible_same:
  "isCompatible cfg a b \<Longrightarrow> Region a = Region b \<and> GameMode a = GameMode b"
  by (auto simp add: isCompatible_def split: if_splits)

lemma buildGroup_fullGroup:
  assumes b: "buildGroup cfg n p players [p] (insert (ID p) used) = (grp, used1)"
    and n: "1 \<le> n" "n \<le> length grp" and p: "p \<in> set players"
  shows "fullGroup players n \<lparr>MatchID = i, Players = grp, CreatedAt = t\<rparr>"
proof -
  from buildGroup_prefix [OF b] obtain joined where
    j: "grp = [p] @ joined"
    "set joined \<subseteq> {q \<in> set players. isCompatible cfg p q \<and> ID q \<notin> insert (ID p) used}"
    by blast
  have "length grp \<le> n"
    using buildGroup_length [OF b] n(1) by simp
  with n(2) have len: "length grp = n" by simp
  have same: "\<forall>q\<in>set grp. Region q = Region p \<and> GameMode q = GameMode p"
    using j isCompatible_same [of cfg p] by auto
  have sub: "set grp \<subseteq> set players"
    using j p by auto
  from len same sub show ?thesis
    by (simp add: fullGroup_def)
qed

lemma processLoop_effect:
  assumes "set remaining \<subseteq> set players" and "1 \<le> n"
  shows "\<exists>cs ls.
     calls (processLoop cfg region gameMode n players remaining used w) = calls w @ cs
     \<and> logged (processLoop cfg region gameMode n players remaining used w) = logged w @ ls
     \<and> persistBeforeRemove [] cs
     \<and> (\<forall>m ok. SaveCall m ok \<in> set cs \<longrightarrow> fullGroup players n m)
     \<and> (\<forall>m. SaveCall m False \<in> set cs \<longrightarrow>
           LogWarn ''Failed to save match'' [MatchID m] \<in> set ls)
     \<and> (\<forall>pid. RemoveCall pid False \<in> set cs \<longrightarrow>
           LogWarn ''Failed to remove player from queue'' [pid] \<in> set ls)"
  using assms(1)
proof (induction remaining arbitrary: used w)
  case Nil
  show ?case by simp
next
  case (Cons p remaining)
  then have sub: "set remaining \<subseteq> set players" and p: "p \<in> set players"
    by auto
  show ?case
  proof (cases "ID p \<in> used")
    case True
    with Cons.IH [OF sub, of used w] show ?thesis by simp
  next
    case False
    obtain grp used1 where
      b: "buildGroup cfg n p players [p] (insert (ID p) used) = (grp, used1)"
      by (cases "buildGroup cfg n p players [p] (insert (ID p) used)")
    show ?thesis
    proof (cases "n \<le> length grp")
      case short: False
      with False b Cons.IH [OF sub, of "used1 - ID ` set grp" w] show ?thesis
        by simp
    next
      case True
      define m where "m = \<lparr>MatchID = newMatchID (clock w), Players = grp, CreatedAt = clock w\<rparr>"
      define w3 where "w3 = logger (LogInfo ''Match created from queue processing''
          [MatchID m, region, gameMode]) (removeMatched (saveOrWarn w m) grp)"
      have step: "processLoop cfg region gameMode n players (p # remaining) used w
          = processLoop cfg region gameMode n players remaining used1 w3"
        using False b True by (simp add: m_def w3_def Let_def)
      have pm: "Players m = grp" by (simp add: m_def)
      have fg: "fullGroup players n m"
        unfolding m_def using buildGroup_fullGroup [OF b assms(2) True p] .
      from matched_step [of w m] pm obtain ok rs ls1 where
        s: "calls (removeMatched (saveOrWarn w m) grp) = calls w @ SaveCall m ok # rs"
        "logged (removeMatched (saveOrWarn w m) grp) = logged w @ ls1"
        "map removal_of rs = map Some (map ID grp)"
        "\<forall>pid. RemoveCall pid False \<in> set rs \<longrightarrow>
           LogWarn ''Failed to remove player from queue'' [pid] \<in> set ls1"
        "\<not> ok \<longrightarrow> LogWarn ''Failed to save match'' [MatchID m] \<in> set ls1"
        by auto
      from Cons.IH [OF sub, of used1 w3] obtain cs ls where
        h: "calls (processLoop cfg region gameMode n players remaining used1 w3) = calls w3 @ cs"
        "logged (processLoop cfg region gameMode n players remaining used1 w3) = logged w3 @ ls"
        "persistBeforeRemove [] cs"
        "\<forall>m ok. SaveCall m ok \<in> set cs \<longrightarrow> fullGroup players n m"
        "\<forall>m. SaveCall m False \<in> set cs \<longrightarrow>
           LogWarn ''Failed to save match'' [MatchID m] \<in> set ls"
        "\<forall>pid. RemoveCall pid False \<in> set cs \<longrightarrow>
           LogWarn ''Failed to remove player from queue'' [pid] \<in> set ls"
        by blast
      let ?cs = "SaveCall m ok # rs @ cs"
      let ?ls = "ls1 @ LogInfo ''Match created from queue processing''
          [MatchID m, region, gameMode] # ls"
      have c: "calls (processLoop cfg region gameMode n players (p # remaining) used w)
          = calls w @ ?cs"
        using step h(1) s(1) by (simp add: w3_def logger_def)
      have l: "logged (processLoop cfg region gameMode n players (p # remaining) used w)
          = logged w @ ?ls"
        using step h(2) s(2) by (simp add: w3_def logger_def)
      have o: "persistBeforeRemove [] ?cs"
        using persistBeforeRemove_removals [OF s(3), of "[]" cs] h(3) pm by simp
      have nosave: "\<And>m' ok'. SaveCall m' ok' \<notin> set rs"
        using removals_only [OF s(3)] .
      have g: "\<forall>m' ok'. SaveCall m' ok' \<in> set ?cs \<longrightarrow> fullGroup players n m'"
        using fg h(4) nosave by auto
      have sw: "\<forall>m'. SaveCall m' False \<in> set ?cs \<longrightarrow>
           LogWarn ''Failed to save match'' [MatchID m'] \<in> set ?ls"
        using s(5) h(5) nosave by auto
      have rw: "\<forall>pid. RemoveCall pid False \<in> set ?cs \<longrightarrow>
           LogWarn ''Failed to remove player from queue'' [pid] \<in> set ?ls"
        using s(4) h(6) by auto
      from c l o g sw rw show ?thesis by blast
    qed
  qed
qed

lemma saveOrWarn_others:
  "k \<notin> ID ` set (Players m) \<Longrightarrow> matchKeys (saveOrWarn w m) k = matchKeys w k"
  using saveOrWarn_effect [of w m] saved_for_others [of k "Players m" m "matchKeys w"]
  by auto

lemma processLoop_keeps_used:
  "k \<in> used \<Longrightarrow>
   matchKeys (processLoop cfg region gameMode n players remaining used w) k = matchKeys w k"
proof (induction remaining arbitrary: used w)
  case Nil
  show ?case by simp
next
  case (Cons p remaining)
  show ?case
  proof (cases "ID p \<in> used")
    case True
    with Cons show ?thesis by simp
  next
    case False
    obtain grp used1 where
      b: "buildGroup cfg n p players [p] (insert (ID p) used) = (grp, used1)"
      by (cases "buildGroup cfg n p players [p] (insert (ID p) used)")
    from buildGroup_prefix [OF b] obtain joined where
      j: "grp = [p] @ joined"
      "set joined \<subseteq> {q \<in> set players. isCompatible cfg p q \<and> ID q \<notin> insert (ID p) used}"
      "used1 = insert (ID p) used \<union> ID ` set joined"
      by blast
    have k1: "k \<in> used1" using Cons.prems j(3) by simp
    have k2: "k \<notin> ID ` set grp" using Cons.prems False j(1,2) by auto
    show ?thesis
    proof (cases "n \<le> length grp")
      case short: False
      have "k \<in> used1 - ID ` set grp" using k1 k2 by simp
      from Cons.IH [OF this] False b short show ?thesis by simp
    next
      case True
      define m where "m = \<lparr>MatchID = newMatchID (clock w), Players = grp, CreatedAt = clock w\<rparr>"
      define w3 where "w3 = logger (LogInfo ''Match created from queue processing''
          [MatchID m, region, gameMode]) (removeMatched (saveOrWarn w m) grp)"
      have step: "processLoop cfg region gameMode n players (p # remaining) used w
          = processLoop cfg region gameMode n players remaining used1 w3"
        using False b True by (simp add: m_def w3_def Let_def)
      have "matchKeys w3 k = matchKeys (saveOrWarn w m) k"
        using removeMatched_frame [of "saveOrWarn w m" grp] by (simp add: w3_def logger_def)
      also have "\<dots> = matchKeys w k"
        using saveOrWarn_others [of k m w] k2 by (simp add: m_def)
      finally show ?thesis
        using step Cons.IH [OF k1, of w3] by simp
    qed
  qed
qed

lemma processLoop_calls_grow:
  "\<exists>cs. calls (processLoop cfg region gameMode n players remaining used w) = calls w @ cs"
proof (induction remaining arbitrary: used w)
  case Nil
  show ?case by simp
next
  case (Cons p remaining)
  show ?case
  proof (cases "ID p \<in> used")
    case True
    with Cons.IH [of used w] show ?thesis by simp
  next
    case False
    obtain grp used1 where
      b: "buildGroup cfg n p players [p] (insert (ID p) used) = (grp, used1)"
      by (cases "buildGroup cfg n p players [p] (insert (ID p) used)")
    show ?thesis
    proof (cases "n \<le> length grp")
      case short: False
      with False b Cons.IH [of "used1 - ID ` set grp" w] show ?thesis
        by simp
    next
      case True
      define m0 where
        "m0 = \<lparr>MatchID = newMatchID (clock w), Players = grp, CreatedAt = clock w\<rparr>"
      define w3 where "w3 = logger (LogInfo ''Match created from queue processing''
          [MatchID m0, region, gameMode]) (removeMatched (saveOrWarn w m0) grp)"
      have step: "processLoop cfg region gameMode n players (p # remaining) used w
          = processLoop cfg region gameMode n players remaining used1 w3"
        using False b True by (simp add: m0_def w3_def Let_def)
      have pm: "Players m0 = grp" by (simp add: m0_def)
      from matched_step [of w m0] pm obtain ok rs where
        "calls (removeMatched (saveOrWarn w m0) grp) = calls w @ SaveCall m0 ok # rs"
        by auto
      then have c3: "calls w3 = calls w @ SaveCall m0 ok # rs"
        by (simp add: w3_def logger_def)
      from Cons.IH [of used1 w3] obtain cs' where
        "calls (processLoop cfg region gameMode n players remaining used1 w3) = calls w3 @ cs'"
        by blast
      with step c3 show ?thesis by simp
    qed
  qed
qed

lemma processLoop_persisted:
  assumes "calls (processLoop cfg region gameMode n players remaining used w) = calls w @ cs"
    and "SaveCall m True \<in> set cs" and "q \<in> set (Players m)"
  shows "matchKeys (processLoop cfg region gameMode n players remaining used w) (ID q) = Some m"
  using assms(1,2)
proof (induction remaining arbitrary: used w cs)
  case Nil
  then show ?case by simp
next
  case (Cons p remaining)
  show ?case
  proof (cases "ID p \<in> used")
    case True
    with Cons.prems Cons.IH [of used w cs] show ?thesis by simp
  next
    case False
    obtain grp used1 where
      b: "buildGroup cfg n p players [p] (insert (ID p) used) = (grp, used1)"
      by (cases "buildGroup cfg n p players [p] (insert (ID p) used)")
    show ?thesis
    proof (cases "n \<le> length grp")
      case short: False
      with False b Cons.prems Cons.IH [of "used1 - ID ` set grp" w cs] show ?thesis
        by simp
    next
      case True
      define m0 where
        "m0 = \<lparr>MatchID = newMatchID (clock w), Players = grp, CreatedAt = clock w\<rparr>"
      define w3 where "w3 = logger (LogInfo ''Match created from queue processing''
          [MatchID m0, region, gameMode]) (removeMatched (saveOrWarn w m0) grp)"
      let ?end = "processLoop cfg region gameMode n players remaining used1 w3"
      have step: "processLoop cfg region gameMode n players (p # remaining) used w = ?end"
        using False b True by (simp add: m0_def w3_def Let_def)
      have pm: "Players m0 = grp" by (simp add: m0_def)
      from matched_step [of w m0] pm obtain ok rs where
        s: "calls (removeMatched (saveOrWarn w m0) grp) = calls w @ SaveCall m0 ok # rs"
        "map removal_of rs = map Some (map ID grp)"
        "ok \<longrightarrow> matchKeys (removeMatched (saveOrWarn w m0) grp)
                 = foldl (\<lambda>km p. km(ID p \<mapsto> m0)) (matchKeys w) grp"
        by auto
      have c3: "calls w3 = calls w @ SaveCall m0 ok # rs"
        using s(1) by (simp add: w3_def logger_def)
      from buildGroup_prefix [OF b] obtain joined where
        j: "grp = [p] @ joined" "used1 = insert (ID p) used \<union> ID ` set joined"
        by blast
      obtain cs' where cs': "calls ?end = calls w3 @ cs'"
        using processLoop_calls_grow [of cfg region gameMode n players remaining used1 w3]
        by blast
      with step Cons.prems(1) c3 have cs: "cs = SaveCall m0 ok # rs @ cs'"
        by simp
      from Cons.prems(2) cs removals_only [OF s(2)]
      consider (here) "m = m0" "ok" | (later) "SaveCall m True \<in> set cs'"
        by auto
      then show ?thesis
      proof cases
        case here
        with assms(3) pm have qg: "q \<in> set grp" by simp
        then have "ID q \<in> used1" using j by auto
        from processLoop_keeps_used [OF this, of cfg region gameMode n players remaining w3]
        have "matchKeys ?end (ID q) = matchKeys w3 (ID q)" .
        also have "\<dots> = Some m0"
          using s(3) here(2) saved_for_members [OF qg, of m0 "matchKeys w"]
          by (simp add: w3_def logger_def)
        finally show ?thesis using step here(1) by simp
      next
        case later
        from Cons.IH [OF cs' later] step show ?thesis by simp
      qed
    qed
  qed
qed

lemma reads_ordered:
  "\<forall>c\<in>set reads. is_read c \<Longrightarrow> persistBeforeRemove [] reads"
  by (induction reads) (auto simp add: is_read_def split: store_call.splits)

lemma reads_no_write:
  "\<forall>c\<in>set reads. is_read c \<Longrightarrow> SaveCall m ok \<notin> set reads \<and> RemoveCall pid ok' \<notin> set reads"
  by (auto simp add: is_read_def)

lemma newCalls_append: "calls w' = calls w @ cs \<Longrightarrow> newCalls w w' = cs"
  by (simp add: newCalls_def)

lemma newLogged_append: "logged w' = logged w @ ls \<Longrightarrow> newLogged w w' = ls"
  by (simp add: newLogged_def)

lemma FindMatch_effect:
  assumes "FindMatch cfg w playerID = (r, w')"
  shows "\<exists>cs ls. calls w' = calls w @ cs \<and> logged w' = logged w @ ls
     \<and> persistBeforeRemove [] cs
     \<and> (\<forall>m ok. SaveCall m ok \<in> set cs \<longrightarrow>
           r = Inr m
           \<and> (ok \<longrightarrow> (\<forall>p\<in>set (Players m). matchKeys w' (ID p) = Some m))
           \<and> (\<not> ok \<longrightarrow> matchKeys w' = matchKeys w
                 \<and> LogWarn ''Failed to save match'' [MatchID m] \<in> set ls)
           \<and> (\<forall>p\<in>set (Players m). \<exists>ok'. RemoveCall (ID p) ok' \<in> set cs))
     \<and> (\<forall>pid. RemoveCall pid False \<in> set cs \<longrightarrow>
           (\<exists>m. r = Inr m)
           \<and> LogWarn ''Failed to remove player from queue'' [pid] \<in> set ls)"
  using assms
proof (cases rule: FindMatch_cases)
  case (saved m)
  then show ?thesis
    by (intro exI [of _ "[GetMatchCall playerID]"]
        exI [of _ "[LogInfo ''Returning saved match'' [MatchID m, playerID]]"])
      simp
next
  case (failed e reads)
  with reads_ordered [of reads] reads_no_write [of reads] show ?thesis
    by (intro exI [of _ reads] exI [of _ "[]"]) simp
next
  case (matched currentPlayer candidates w3 matchPlayers m)
  from matched(9) obtain reads where
    rd: "calls w3 = calls w @ reads" "\<forall>c\<in>set reads. is_read c"
    by blast
  have pm: "Players m = matchPlayers" using matched(6) by simp
  from matched_step [of w3 m] pm obtain ok rs ls where
    s: "calls (removeMatched (saveOrWarn w3 m) matchPlayers) = calls w3 @ SaveCall m ok # rs"
    "logged (removeMatched (saveOrWarn w3 m) matchPlayers) = logged w3 @ ls"
    "map removal_of rs = map Some (map ID matchPlayers)"
    "\<forall>pid. RemoveCall pid False \<in> set rs \<longrightarrow>
           LogWarn ''Failed to remove player from queue'' [pid] \<in> set ls"
    "ok \<longrightarrow> matchKeys (removeMatched (saveOrWarn w3 m) matchPlayers)
             = foldl (\<lambda>km p. km(ID p \<mapsto> m)) (matchKeys w3) matchPlayers"
    "\<not> ok \<longrightarrow> matchKeys (removeMatched (saveOrWarn w3 m) matchPlayers) = matchKeys w3
            \<and> LogWarn ''Failed to save match'' [MatchID m] \<in> set ls"
    by auto
  let ?cs = "reads @ SaveCall m ok # rs"
  let ?ls = "ls @ [LogInfo ''Match found'' [MatchID m]]"
  have c: "calls w' = calls w @ ?cs"
    using matched(8) s(1) rd(1) by (simp add: logger_def)
  have l: "logged w' = logged w @ ?ls"
    using matched(8,13) s(2) by (simp add: logger_def)
  have mk: "matchKeys w' = matchKeys (removeMatched (saveOrWarn w3 m) matchPlayers)"
    using matched(8) by (simp add: logger_def)
  have "persistBeforeRemove [] (SaveCall m ok # rs)"
    using persistBeforeRemove_removals [OF s(3), of "[]" "[]"] pm by simp
  then have o: "persistBeforeRemove [] ?cs"
    using persistBeforeRemove_append [OF reads_ordered [OF rd(2)]] by blast
  have only: "\<And>m' ok'. SaveCall m' ok' \<in> set ?cs \<Longrightarrow> m' = m \<and> ok' = ok"
    using reads_no_write [OF rd(2)] removals_only [OF s(3)] by auto
  have cover: "\<forall>p\<in>set (Players m). \<exists>ok'. RemoveCall (ID p) ok' \<in> set ?cs"
    using removals_cover [OF s(3)] pm by auto
  have persisted: "ok \<longrightarrow> (\<forall>p\<in>set (Players m). matchKeys w' (ID p) = Some m)"
    using s(5) mk pm saved_for_members [of _ matchPlayers m "matchKeys w3"] by simp
  have unsaved: "\<not> ok \<longrightarrow> matchKeys w' = matchKeys w
      \<and> LogWarn ''Failed to save match'' [MatchID m] \<in> set ?ls"
    using s(6) mk matched(12) by simp
  have sv: "\<forall>m' ok'. SaveCall m' ok' \<in> set ?cs \<longrightarrow>
           r = Inr m'
           \<and> (ok' \<longrightarrow> (\<forall>p\<in>set (Players m'). matchKeys w' (ID p) = Some m'))
           \<and> (\<not> ok' \<longrightarrow> matchKeys w' = matchKeys w
                 \<and> LogWarn ''Failed to save match'' [MatchID m'] \<in> set ?ls)
           \<and> (\<forall>p\<in>set (Players m'). \<exists>ok''. RemoveCall (ID p) ok'' \<in> set ?cs)"
  proof (intro allI impI)
    fix m' ok'
    assume "SaveCall m' ok' \<in> set ?cs"
    from only [OF this] have "m' = m" "ok' = ok" by simp_all
    with matched(7) persisted unsaved cover
    show "r = Inr m'
           \<and> (ok' \<longrightarrow> (\<forall>p\<in>set (Players m'). matchKeys w' (ID p) = Some m'))
           \<and> (\<not> ok' \<longrightarrow> matchKeys w' = matchKeys w
                 \<and> LogWarn ''Failed to save match'' [MatchID m'] \<in> set ?ls)
           \<and> (\<forall>p\<in>set (Players m'). \<exists>ok''. RemoveCall (ID p) ok'' \<in> set ?cs)"
      by blast
  qed
  have rm: "\<forall>pid. RemoveCall pid False \<in> set ?cs \<longrightarrow>
           (\<exists>m. r = Inr m)
           \<and> LogWarn ''Failed to remove player from queue'' [pid] \<in> set ?ls"
    using s(4) matched(7) reads_no_write [OF rd(2)] by auto
  from c l o sv rm show ?thesis by blast
qed

lemma persistBeforeRemove_covers:
  "persistBeforeRemove pending cs \<Longrightarrow>
   (\<forall>q\<in>set pending. \<exists>ok. RemoveCall q ok \<in> set cs)
   \<and> (\<forall>m ok. SaveCall m ok \<in> set cs \<longrightarrow>
         (\<forall>p\<in>set (Players m). \<exists>ok'. RemoveCall (ID p) ok' \<in> set cs))"
proof (induction pending cs rule: persistBeforeRemove.induct)
  case (1 pending)
  then show ?case by simp
next
  case (2 pending m ok cs)
  then show ?case by (auto; blast)
next
  case (3 pending playerID ok cs)
  then show ?case by (cases pending) (auto; blast)+
qed auto

lemma GetPlayersPerMatch_pos: "1 \<le> GetPlayersPerMatch gameMode"
  by (simp add: GetPlayersPerMatch_def)

lemma ProcessQueue_effect:
  assumes "ProcessQueue cfg w region gameMode = (e, w')"
  shows "\<exists>cs ls. calls w' = calls w @ RangeCall region gameMode 0 MaxInt 100 # cs
     \<and> logged w' = logged w @ ls
     \<and> persistBeforeRemove [] cs
     \<and> (e = None \<or> e = Some (FailedToGetPlayers FailedToGetPlayersInRange) \<and> cs = [])
     \<and> (\<forall>m ok. SaveCall m ok \<in> set cs \<longrightarrow>
           fullGroup (ZRangeByScore (zsets w (queueKey region gameMode)) 0 MaxInt 100)
             (GetPlayersPerMatch gameMode) m
           \<and> (ok \<longrightarrow> (\<forall>p\<in>set (Players m). matchKeys w' (ID p) = Some m))
           \<and> (\<not> ok \<longrightarrow> LogWarn ''Failed to save match'' [MatchID m] \<in> set ls)
           \<and> (\<forall>p\<in>set (Players m). \<exists>ok'. RemoveCall (ID p) ok' \<in> set cs))
     \<and> (\<forall>pid. RemoveCall pid False \<in> set cs \<longrightarrow>
           LogWarn ''Failed to remove player from queue'' [pid] \<in> set ls)"
proof -
  obtain r1 w1 where q: "GetPlayersInRange w region gameMode 0 MaxInt 100 = (r1, w1)"
    by (cases "GetPlayersInRange w region gameMode 0 MaxInt 100")
  note e1 = GetPlayersInRange_effect [OF q]
  show ?thesis
  proof (cases r1)
    case (Inl err)
    with e1(8) [of err] have "err = FailedToGetPlayersInRange" by simp
    with assms q Inl have "e = Some (FailedToGetPlayers FailedToGetPlayersInRange)" "w' = w1"
      by (simp_all add: ProcessQueue_def)
    with e1 show ?thesis
      by (intro exI [of _ "[]"]) simp
  next
    case (Inr players)
    then have ps: "players = ZRangeByScore (zsets w (queueKey region gameMode)) 0 MaxInt 100"
      using e1(7) by simp
    let ?n = "GetPlayersPerMatch gameMode"
    show ?thesis
    proof (cases "length players < ?n")
      case True
      with assms q Inr have "e = None" "w' = w1"
        by (simp_all add: ProcessQueue_def)
      with e1 show ?thesis
        by (intro exI [of _ "[]"]) simp
    next
      case False
      let ?end = "processLoop cfg region gameMode ?n players players {} w1"
      from False assms q Inr have r: "e = None" "w' = ?end"
        by (simp_all add: ProcessQueue_def)
      from processLoop_effect [where remaining = players and players = players
          and n = ?n and used = "{}" and w = w1 and cfg = cfg and region = region
          and gameMode = gameMode, OF subset_refl GetPlayersPerMatch_pos]
      obtain cs ls where
        h: "calls ?end = calls w1 @ cs" "logged ?end = logged w1 @ ls"
        "persistBeforeRemove [] cs"
        "\<forall>m ok. SaveCall m ok \<in> set cs \<longrightarrow> fullGroup players ?n m"
        "\<forall>m. SaveCall m False \<in> set cs \<longrightarrow>
           LogWarn ''Failed to save match'' [MatchID m] \<in> set ls"
        "\<forall>pid. RemoveCall pid False \<in> set cs \<longrightarrow>
           LogWarn ''Failed to remove player from queue'' [pid] \<in> set ls"
        by blast
      have c: "calls w' = calls w @ RangeCall region gameMode 0 MaxInt 100 # cs"
        using r(2) h(1) e1(1) by simp
      have l: "logged w' = logged w @ ls"
        using r(2) h(2) e1(5) by simp
      have per: "\<forall>m. SaveCall m True \<in> set cs \<longrightarrow>
          (\<forall>p\<in>set (Players m). matchKeys w' (ID p) = Some m)"
        using processLoop_persisted [OF h(1)] r(2) by blast
      have cov: "\<forall>m ok. SaveCall m ok \<in> set cs \<longrightarrow>
          (\<forall>p\<in>set (Players m). \<exists>ok'. RemoveCall (ID p) ok' \<in> set cs)"
        using persistBeforeRemove_covers [OF h(3)] by blast
      have sv: "\<forall>m ok. SaveCall m ok \<in> set cs \<longrightarrow>
           fullGroup (ZRangeByScore (zsets w (queueKey region gameMode)) 0 MaxInt 100) ?n m
           \<and> (ok \<longrightarrow> (\<forall>p\<in>set (Players m). matchKeys w' (ID p) = Some m))
           \<and> (\<not> ok \<longrightarrow> LogWarn ''Failed to save match'' [MatchID m] \<in> set ls)
           \<and> (\<forall>p\<in>set (Players m). \<exists>ok'. RemoveCall (ID p) ok' \<in> set cs)"
      proof (intro allI impI)
        fix m ok
        assume a: "SaveCall m ok \<in> set cs"
        show "fullGroup (ZRangeByScore (zsets w (queueKey region gameMode)) 0 MaxInt 100) ?n m
           \<and> (ok \<longrightarrow> (\<forall>p\<in>set (Players m). matchKeys w' (ID p) = Some m))
           \<and> (\<not> ok \<longrightarrow> LogWarn ''Failed to save match'' [MatchID m] \<in> set ls)
           \<and> (\<forall>p\<in>set (Players m). \<exists>ok'. RemoveCall (ID p) ok' \<in> set cs)"
          using a h(4,5) per cov ps by (cases ok) auto
      qed
      from c l h(3) r(1) sv h(6) show ?thesis by blast
    qed
  qed
qed

section \<open>Runs of the example queues\<close>

lemmas run_defs =
  FindMatch_def ProcessQueue_def GetMatchByPlayerID_def GetPlayerByID_def
  GetPlayersInRange_def RemovePlayerFromQueue_def SaveMatch_def saveOrWarn_def
  redis_fails_def returned_def logger_def queueOf_def queued_def
  queueKey_def playerKey_def GetPlayersPerMatch_def calculateRatingRange_def
  whole_seconds_exact go_quot_def DefaultMatcherConfig_def Second_def Minute_def
  MaxInt_def MinInt_def Since_def wrap64_def round53_small round53_MaxInt
  float64_to_int_def ZRangeByScore_def isCompatible_def newMatchID_def digits.simps Let_def

lemma duel_save_fails:
  "case FindMatch DefaultMatcherConfig (queueOf duel [False, False, False, True] (10 * Second))
          ''alice'' of
     (r, w') \<Rightarrow>
       r = Inr duelMatch
       \<and> calls w' = [GetMatchCall ''alice'', GetPlayerCall ''alice'',
                      RangeCall ''EU'' ''1v1'' 1300 1700 4, SaveCall duelMatch False,
                      RemoveCall ''alice'' True, RemoveCall ''bob'' True]
       \<and> logged w' = [LogWarn ''Failed to save match'' [''match_10000000000''],
                       LogInfo ''Player removed from queue'' [''alice''],
                       LogInfo ''Player removed from queue'' [''bob''],
                       LogInfo ''Match found'' [''match_10000000000'']]
       \<and> matchKeys w' = Map.empty
       \<and> zsets w' ''queue:EU:1v1'' = []
       \<and> playerKeys w' ''player:alice'' = None \<and> playerKeys w' ''player:bob'' = None"
  by (simp add: run_defs duel_def duelMatch_def)

lemma duel_removal_fails:
  "case FindMatch DefaultMatcherConfig
          (queueOf duel [False, False, False, False, True] (10 * Second)) ''alice'' of
     (r, w') \<Rightarrow>
       r = Inr duelMatch
       \<and> calls w' = [GetMatchCall ''alice'', GetPlayerCall ''alice'',
                      RangeCall ''EU'' ''1v1'' 1300 1700 4, SaveCall duelMatch True,
                      RemoveCall ''alice'' False, RemoveCall ''bob'' True]
       \<and> logged w' = [LogWarn ''Failed to remove player from queue'' [''alice''],
                       LogInfo ''Player removed from queue'' [''bob''],
                       LogInfo ''Match found'' [''match_10000000000'']]
       \<and> matchKeys w' ''alice'' = Some duelMatch \<and> matchKeys w' ''bob'' = Some duelMatch
       \<and> zsets w' ''queue:EU:1v1'' = [queued ''alice'' 1500 ''EU'' ''1v1'']
       \<and> playerKeys w' ''player:bob'' = None"
  by (simp add: run_defs duel_def duelMatch_def)

lemma duel_batch_save_fails:
  "case ProcessQueue DefaultMatcherConfig (queueOf duel [False, True] (10 * Second))
          ''EU'' ''1v1'' of
     (e, w') \<Rightarrow>
       e = None
       \<and> calls w' = [RangeCall ''EU'' ''1v1'' 0 MaxInt 100, SaveCall duelMatch False,
                      RemoveCall ''alice'' True, RemoveCall ''bob'' True]
       \<and> logged w' = [LogWarn ''Failed to save match'' [''match_10000000000''],
                       LogInfo ''Player removed from queue'' [''alice''],
                       LogInfo ''Player removed from queue'' [''bob''],
                       LogInfo ''Match created from queue processing''
                         [''match_10000000000'', ''EU'', ''1v1'']]
       \<and> matchKeys w' = Map.empty
       \<and> zsets w' ''queue:EU:1v1'' = []
       \<and> playerKeys w' ''player:alice'' = None \<and> playerKeys w' ''player:bob'' = None"
  by (simp add: run_defs duel_def duelMatch_def)

lemma duel_batch_removal_fails:
  "case ProcessQueue DefaultMatcherConfig (queueOf duel [False, False, True] (10 * Second))
          ''EU'' ''1v1'' of
     (e, w') \<Rightarrow>
       e = None
       \<and> calls w' = [RangeCall ''EU'' ''1v1'' 0 MaxInt 100, SaveCall duelMatch True,
                      RemoveCall ''alice'' False, RemoveCall ''bob'' True]
       \<and> logged w' = [LogWarn ''Failed to remove player from queue'' [''alice''],
                       LogInfo ''Player removed from queue'' [''bob''],
                       LogInfo ''Match created from queue processing''
                         [''match_10000000000'', ''EU'', ''1v1'']]
       \<and> matchKeys w' ''alice'' = Some duelMatch \<and> matchKeys w' ''bob'' = Some duelMatch"
  by (simp add: run_defs duel_def duelMatch_def)

lemma trio_no_match:
  "case FindMatch DefaultMatcherConfig (queueOf trio [] (61 * Second)) ''carol'' of
     (r, w') \<Rightarrow>
       r = Inl NoSuitableMatchFound
       \<and> calls w' = [GetMatchCall ''carol'', GetPlayerCall ''carol'',
                      RangeCall ''EU'' ''3v3'' 1200 1800 12]
       \<and> zsets w' ''queue:EU:3v3'' = trio"
  by (simp add: run_defs trio_def)

lemma lowDuel_batch:
  "case ProcessQueue DefaultMatcherConfig (queueOf lowDuel [] (10 * Second)) ''EU'' ''1v1'' of
     (e, w') \<Rightarrow>
       e = None
       \<and> calls w' = [RangeCall ''EU'' ''1v1'' 0 MaxInt 100]
       \<and> zsets w' ''queue:EU:1v1'' = lowDuel"
  by (simp add: run_defs lowDuel_def)

lemma lowDuel_on_demand:
  "case FindMatch DefaultMatcherConfig (queueOf lowDuel [] (10 * Second)) ''erin'' of
     (r, w') \<Rightarrow>
       r = Inr \<lparr>MatchID = ''match_10000000000'', Players = lowDuel, CreatedAt = 10 * Second\<rparr>
       \<and> zsets w' ''queue:EU:1v1'' = []"
  by (simp add: run_defs lowDuel_def)



lemma duel_lookup_fails:
  "case FindMatch DefaultMatcherConfig
          (queueOf duel [False, False, False, False, False, False, False, False, False, False,
                         True] (10 * Second)) ''alice'' of
     (r, w') \<Rightarrow>
       r = Inr duelMatch
       \<and> matchKeys w' ''bob'' = Some duelMatch
       \<and> faults w' = [True]
       \<and> (case FindMatch DefaultMatcherConfig w' ''bob'' of
            (r2, w2) \<Rightarrow>
              r2 = Inl (PlayerNotFoundInQueue PlayerNotFound)
              \<and> newCalls w' w2 = [GetMatchCall ''bob'', GetPlayerCall ''bob''])"
  by (simp add: run_defs duel_def duelMatch_def newCalls_def)

lemma duel_second_match:
  "case FindMatch DefaultMatcherConfig
          (queueOf duel [False, False, False, False, True, True, True] (10 * Second))
          ''alice'' of
     (r, w') \<Rightarrow>
       r = Inr duelMatch
       \<and> matchKeys w' ''bob'' = Some duelMatch
       \<and> faults w' = [True]
       \<and> (case FindMatch DefaultMatcherConfig w' ''bob'' of
            (r2, w2) \<Rightarrow>
              r2 = Inr rematch
              \<and> SaveCall rematch True \<in> set (newCalls w' w2)
              \<and> matchKeys w2 ''bob'' = Some rematch)"
  by (simp add: run_defs duel_def duelMatch_def rematch_def newCalls_def)

lemma ZRangeByScore_subset: "set (ZRangeByScore members lo hi count) \<subseteq> set members"
  by (auto simp add: ZRangeByScore_def Let_def dest: in_set_takeD)

lemma GetPlayersPerMatch_two: "2 \<le> GetPlayersPerMatch gameMode"
  by (simp add: GetPlayersPerMatch_def)

lemma new_group_shape:
  assumes mp: "matchPlayers = scanCandidates cfg playerID currentPlayer
             (GetPlayersPerMatch (GameMode currentPlayer)) candidates [currentPlayer]"
    and full: "GetPlayersPerMatch (GameMode currentPlayer) \<le> length matchPlayers"
    and sub: "set candidates \<subseteq> set zs"
  shows "\<exists>others. matchPlayers = currentPlayer # others
     \<and> length matchPlayers = GetPlayersPerMatch (GameMode currentPlayer)
     \<and> set others \<subseteq> set zs
     \<and> (\<forall>p\<in>set others. ID p \<noteq> playerID \<and> isCompatible cfg currentPlayer p)"
proof -
  let ?n = "GetPlayersPerMatch (GameMode currentPlayer)"
  from scanCandidates_prefix [of cfg playerID currentPlayer ?n candidates "[currentPlayer]"]
  obtain accepted where
    a: "matchPlayers = [currentPlayer] @ accepted"
    "set accepted \<subseteq> {c \<in> set candidates. ID c \<noteq> playerID \<and> isCompatible cfg currentPlayer c}"
    using mp by auto
  have "length matchPlayers \<le> ?n"
    using scanCandidates_length [of "[currentPlayer]" ?n cfg playerID currentPlayer candidates]
      GetPlayersPerMatch_two [of "GameMode currentPlayer"] mp
    by simp
  with full have len: "length matchPlayers = ?n" by simp
  from len a sub show ?thesis
    by (intro exI [of _ accepted]) auto
qed

lemma FindMatch_new_group:
  assumes "matchKeys w playerID = None" and "FindMatch cfg w playerID = (Inr m, w')"
  shows "\<exists>currentPlayer others.
     playerKeys w (playerKey playerID) = Some currentPlayer
     \<and> Players m = currentPlayer # others
     \<and> length (Players m) = GetPlayersPerMatch (GameMode currentPlayer)
     \<and> set others \<subseteq> set (zsets w (queueKey (Region currentPlayer) (GameMode currentPlayer)))
     \<and> (\<forall>p\<in>set others. ID p \<noteq> playerID \<and> isCompatible cfg currentPlayer p)"
  using assms(2)
proof (cases rule: FindMatch_cases)
  case (saved m')
  with assms(1) show ?thesis by simp
next
  case (failed e reads)
  then show ?thesis by simp
next
  case (matched currentPlayer candidates w3 matchPlayers m')
  have sub: "set candidates
      \<subseteq> set (zsets w (queueKey (Region currentPlayer) (GameMode currentPlayer)))"
    using matched(3) ZRangeByScore_subset by simp
  have pm: "Players m = matchPlayers"
    using matched(6,7) by simp
  from new_group_shape [OF matched(4,5) sub] matched(2) pm show ?thesis
    by auto
qed


lemma RemovePlayerFromQueue_keys:
  assumes "RemovePlayerFromQueue w playerID = (r, w1)"
  shows "playerKeys w k = None \<Longrightarrow> playerKeys w1 k = None"
    and "r = None \<Longrightarrow> playerKeys w1 (playerKey playerID) = None"
  using assms
  by (auto simp add: RemovePlayerFromQueue_def redis_fails_eq returned_def logger_def Let_def
      split: if_splits option.splits)

lemma removeMatched_keys:
  "playerKeys w k = None \<Longrightarrow> playerKeys (removeMatched w ps) k = None"
proof (induction ps arbitrary: w)
  case Nil
  then show ?case by simp
next
  case (Cons p ps)
  obtain r w1 where r: "RemovePlayerFromQueue w (ID p) = (r, w1)"
    by (cases "RemovePlayerFromQueue w (ID p)")
  from RemovePlayerFromQueue_keys(1) [OF r Cons.prems] Cons.IH show ?case
    using r by (cases r) (simp_all add: logger_def)
qed

lemma removeMatched_removed:
  assumes "calls (removeMatched w ps) = calls w @ rs" and "RemoveCall pid True \<in> set rs"
  shows "playerKeys (removeMatched w ps) (playerKey pid) = None"
  using assms
proof (induction ps arbitrary: w rs)
  case Nil
  then show ?case by simp
next
  case (Cons p ps)
  obtain r w1 where r: "RemovePlayerFromQueue w (ID p) = (r, w1)"
    by (cases "RemovePlayerFromQueue w (ID p)")
  define w2 where "w2 = (case r of None \<Rightarrow> w1
      | Some e \<Rightarrow> logger (LogWarn ''Failed to remove player from queue'' [ID p]) w1)"
  have step: "removeMatched w (p # ps) = removeMatched w2 ps"
    using r by (cases r) (simp_all add: w2_def)
  have c2: "calls w2 = calls w @ [RemoveCall (ID p) (r = None)]"
    using RemovePlayerFromQueue_frame(3) [OF r] by (cases r) (simp_all add: w2_def logger_def)
  have k2: "\<And>k. playerKeys w2 k = playerKeys w1 k"
    by (cases r) (simp_all add: w2_def logger_def)
  from removeMatched_calls [of w2 ps] obtain rs' where
    rs': "calls (removeMatched w2 ps) = calls w2 @ rs'" by blast
  with step c2 Cons.prems(1) have "rs = RemoveCall (ID p) (r = None) # rs'" by simp
  with Cons.prems(2) consider (here) "pid = ID p" "r = None" | (later) "RemoveCall pid True \<in> set rs'"
    by auto
  then show ?case
  proof cases
    case here
    from RemovePlayerFromQueue_keys(2) [OF r here(2)] here(1) k2
    have "playerKeys w2 (playerKey pid) = None" by simp
    from removeMatched_keys [OF this] step show ?thesis by simp
  next
    case later
    from Cons.IH [OF rs' later] step show ?thesis by simp
  qed
qed

lemma SaveMatch_persists:
  "SaveMatch w0 m = (None, w) \<Longrightarrow> p \<in> set (Players m) \<Longrightarrow> matchKeys w (ID p) = Some m"
  using saved_for_members [of p "Players m" m "matchKeys w0"]
  by (auto simp add: SaveMatch_def redis_fails_eq returned_def Let_def split: if_splits)

lemma no_fault_next:
  assumes "list_all (\<lambda>f. \<not> f) (take (Suc n) (faults w))"
  shows "\<not> fst (redis_fails w)"
    and "list_all (\<lambda>f. \<not> f) (take n (faults (snd (redis_fails w))))"
  using assms by (cases "faults w"; simp add: redis_fails_def)+

lemma FindMatch_saved:
  assumes "matchKeys w playerID = Some m" and "\<not> fst (redis_fails w)"
  shows "FindMatch cfg w playerID
    = (Inr m, logger (LogInfo ''Returning saved match'' [MatchID m, playerID])
                (returned (GetMatchCall playerID) (snd (redis_fails w))))"
proof -
  have "matchKeys (snd (redis_fails w)) = matchKeys w"
    by (simp add: redis_fails_eq)
  with assms show ?thesis
    by (simp add: FindMatch_def GetMatchByPlayerID_def split_beta Let_def)
qed



lemma on_demand_order:
  assumes run: "FindMatch cfg w playerID = (r, w')"
  shows "persistBeforeRemove [] (newCalls w w')"
    and "SaveCall m True \<in> set (newCalls w w') \<Longrightarrow>
         r = Inr m \<and> (\<forall>p\<in>set (Players m). matchKeys w' (ID p) = Some m)"
    and "RemoveCall pid False \<in> set (newCalls w w') \<Longrightarrow>
         (\<exists>m'. r = Inr m')
         \<and> LogWarn ''Failed to remove player from queue'' [pid] \<in> set (newLogged w w')"
proof -
  from FindMatch_effect [OF run] obtain cs ls where
    c: "calls w' = calls w @ cs" and l: "logged w' = logged w @ ls"
    and o: "persistBeforeRemove [] cs"
    and s: "\<forall>m ok. SaveCall m ok \<in> set cs \<longrightarrow>
           r = Inr m
           \<and> (ok \<longrightarrow> (\<forall>p\<in>set (Players m). matchKeys w' (ID p) = Some m))
           \<and> (\<not> ok \<longrightarrow> matchKeys w' = matchKeys w
                 \<and> LogWarn ''Failed to save match'' [MatchID m] \<in> set ls)
           \<and> (\<forall>p\<in>set (Players m). \<exists>ok'. RemoveCall (ID p) ok' \<in> set cs)"
    and f: "\<forall>pid. RemoveCall pid False \<in> set cs \<longrightarrow>
           (\<exists>m. r = Inr m)
           \<and> LogWarn ''Failed to remove player from queue'' [pid] \<in> set ls"
    by blast
  have nc: "newCalls w w' = cs" and nl: "newLogged w w' = ls"
    using c l by (simp_all add: newCalls_def newLogged_def)
  show "persistBeforeRemove [] (newCalls w w')"
    using o nc by simp
  show "r = Inr m \<and> (\<forall>p\<in>set (Players m). matchKeys w' (ID p) = Some m)"
    if "SaveCall m True \<in> set (newCalls w w')"
    using that nc s by blast
  show "(\<exists>m'. r = Inr m')
      \<and> LogWarn ''Failed to remove player from queue'' [pid] \<in> set (newLogged w w')"
    if "RemoveCall pid False \<in> set (newCalls w w')"
    using that nc nl f by simp
qed

lemma batch_order:
  assumes run: "ProcessQueue cfg w region gameMode = (e, w')"
  shows "persistBeforeRemove [] (newCalls w w')"
    and "SaveCall m True \<in> set (newCalls w w') \<Longrightarrow>
         e = None \<and> (\<forall>p\<in>set (Players m). matchKeys w' (ID p) = Some m)"
    and "RemoveCall pid False \<in> set (newCalls w w') \<Longrightarrow>
         e = None
         \<and> LogWarn ''Failed to remove player from queue'' [pid] \<in> set (newLogged w w')"
proof -
  from ProcessQueue_effect [OF run] obtain cs ls where
    c: "calls w' = calls w @ RangeCall region gameMode 0 MaxInt 100 # cs"
    and l: "logged w' = logged w @ ls"
    and o: "persistBeforeRemove [] cs"
    and r: "e = None \<or> e = Some (FailedToGetPlayers FailedToGetPlayersInRange) \<and> cs = []"
    and s: "\<forall>m ok. SaveCall m ok \<in> set cs \<longrightarrow>
           fullGroup (ZRangeByScore (zsets w (queueKey region gameMode)) 0 MaxInt 100)
             (GetPlayersPerMatch gameMode) m
           \<and> (ok \<longrightarrow> (\<forall>p\<in>set (Players m). matchKeys w' (ID p) = Some m))
           \<and> (\<not> ok \<longrightarrow> LogWarn ''Failed to save match'' [MatchID m] \<in> set ls)
           \<and> (\<forall>p\<in>set (Players m). \<exists>ok'. RemoveCall (ID p) ok' \<in> set cs)"
    and f: "\<forall>pid. RemoveCall pid False \<in> set cs \<longrightarrow>
           LogWarn ''Failed to remove player from queue'' [pid] \<in> set ls"
    by blast
  have nc: "newCalls w w' = RangeCall region gameMode 0 MaxInt 100 # cs"
    and nl: "newLogged w w' = ls"
    using c l by (simp_all add: newCalls_def newLogged_def)
  show "persistBeforeRemove [] (newCalls w w')"
    using o nc by simp
  show "e = None \<and> (\<forall>p\<in>set (Players m). matchKeys w' (ID p) = Some m)"
    if "SaveCall m True \<in> set (newCalls w w')"
  proof -
    from that nc have i: "SaveCall m True \<in> set cs" by simp
    with r have "e = None" by auto
    moreover from i s have "\<forall>p\<in>set (Players m). matchKeys w' (ID p) = Some m" by blast
    ultimately show ?thesis by (rule conjI)
  qed
  show "e = None
      \<and> LogWarn ''Failed to remove player from queue'' [pid] \<in> set (newLogged w w')"
    if "RemoveCall pid False \<in> set (newCalls w w')"
  proof -
    from that nc have i: "RemoveCall pid False \<in> set cs" by simp
    with r have "e = None" by auto
    moreover from i f nl
    have "LogWarn ''Failed to remove player from queue'' [pid] \<in> set (newLogged w w')"
      by simp
    ultimately show ?thesis by (rule conjI)
  qed
qed

lemma on_demand_removed:
  assumes run: "FindMatch cfg w playerID = (Inr m, w')" and new: "matchKeys w playerID = None"
    and rem: "RemoveCall pid True \<in> set (newCalls w w')"
  shows "playerKeys w' (playerKey pid) = None"
  using run
proof (cases rule: FindMatch_cases)
  case (saved m')
  with new show ?thesis by simp
next
  case (failed e reads)
  then show ?thesis by simp
next
  case (matched currentPlayer candidates w3 matchPlayers m')
  let ?w4 = "saveOrWarn w3 m'"
  from matched(9) obtain reads where
    rd: "calls w3 = calls w @ reads" "\<forall>c\<in>set reads. is_read c"
    by blast
  from saveOrWarn_effect [of w3 m'] obtain ok where
    s: "calls ?w4 = calls w3 @ [SaveCall m' ok]" by blast
  from removeMatched_calls [of ?w4 matchPlayers] obtain rs where
    r: "calls (removeMatched ?w4 matchPlayers) = calls ?w4 @ rs" by blast
  have "calls w' = calls w @ (reads @ SaveCall m' ok # rs)"
    using matched(8) rd(1) s r by (simp add: logger_def)
  then have "newCalls w w' = reads @ SaveCall m' ok # rs"
    by (simp add: newCalls_def)
  with rem reads_no_write [OF rd(2)] have "RemoveCall pid True \<in> set rs"
    by auto
  from removeMatched_removed [OF r this] matched(8) show ?thesis
    by (simp add: logger_def)
qed

section \<open>Properties of the matcher\<close>

text \<open>
  Claim C1, evaluated on the code. A 3v3 player at rating 1500 has waited 61 seconds, so
  the window is 300 and the candidates between 1200 and 1800 are fetched: the five players
  at 1790 are among them, the player at 1810 is not. \<open>isCompatible\<close> then compares the
  rating difference with the configured \<open>MaxRatingDiff\<close> of 200 and not with the window,
  so no candidate 290 points away joins the group: the scan keeps the requesting player
  alone and \<open>FindMatch\<close> ends with "no suitable match found".
\<close>

theorem C1_candidate_within_window_rejected:
  "calculateRatingRange DefaultMatcherConfig
       (61 * Second - JoinedAt (queued ''carol'' 1500 ''EU'' ''3v3'')) = 300
   \<and> ZRangeByScore trio (1500 - 300) (1500 + 300) 12 = butlast trio
   \<and> queued ''near1'' 1790 ''EU'' ''3v3'' \<in> set (butlast trio)
   \<and> \<not> isCompatible DefaultMatcherConfig (queued ''carol'' 1500 ''EU'' ''3v3'')
          (queued ''near1'' 1790 ''EU'' ''3v3'')
   \<and> scanCandidates DefaultMatcherConfig ''carol'' (queued ''carol'' 1500 ''EU'' ''3v3'') 6
        (butlast trio) [queued ''carol'' 1500 ''EU'' ''3v3'']
        = [queued ''carol'' 1500 ''EU'' ''3v3'']
   \<and> fst (FindMatch DefaultMatcherConfig (queueOf trio [] (61 * Second)) ''carol'')
        = Inl NoSuitableMatchFound"
proof -
  have w: "calculateRatingRange DefaultMatcherConfig
       (61 * Second - JoinedAt (queued ''carol'' 1500 ''EU'' ''3v3'')) = 300"
    by (simp add: run_defs)
  have f: "ZRangeByScore trio (1500 - 300) (1500 + 300) 12 = butlast trio"
    by (simp add: ZRangeByScore_def trio_def queued_def round53_small)
  have n: "queued ''near1'' 1790 ''EU'' ''3v3'' \<in> set (butlast trio)"
    by (simp add: trio_def queued_def)
  have c: "\<not> isCompatible DefaultMatcherConfig (queued ''carol'' 1500 ''EU'' ''3v3'')
          (queued ''near1'' 1790 ''EU'' ''3v3'')"
    by (simp add: isCompatible_def queued_def DefaultMatcherConfig_def wrap64_def
        round53_small float64_to_int_def MinInt_def MaxInt_def)
  have s: "scanCandidates DefaultMatcherConfig ''carol'' (queued ''carol'' 1500 ''EU'' ''3v3'') 6
        (butlast trio) [queued ''carol'' 1500 ''EU'' ''3v3'']
        = [queued ''carol'' 1500 ''EU'' ''3v3'']"
    by (simp add: trio_def queued_def isCompatible_def DefaultMatcherConfig_def wrap64_def
        round53_small float64_to_int_def MinInt_def MaxInt_def)
  have r: "fst (FindMatch DefaultMatcherConfig (queueOf trio [] (61 * Second)) ''carol'')
        = Inl NoSuitableMatchFound"
    using trio_no_match by (simp add: split_beta)
  from w f n c s r show ?thesis by (intro conjI)
qed

text \<open>
  Claim C2, as the code has it. Whenever the \<open>SaveMatch\<close> write for an assembled group
  fails, \<open>FindMatch\<close> logs the warning "Failed to save match" and still returns the
  match without error, nothing is stored for the group, and the removal from the queue is
  still called for every player of the group; \<open>ProcessQueue\<close> logs the same warning,
  still calls the removal for every player of the group and returns no error.
\<close>

theorem C2_save_failure_logged_not_propagated:
  "(FindMatch cfg w playerID = (r, w') \<and> SaveCall m False \<in> set (newCalls w w') \<longrightarrow>
      r = Inr m
      \<and> LogWarn ''Failed to save match'' [MatchID m] \<in> set (newLogged w w')
      \<and> matchKeys w' = matchKeys w
      \<and> (\<forall>p\<in>set (Players m). \<exists>ok. RemoveCall (ID p) ok \<in> set (newCalls w w')))
   \<and> (ProcessQueue cfg w region gameMode = (e, w'')
        \<and> SaveCall m2 False \<in> set (newCalls w w'') \<longrightarrow>
      e = None
      \<and> LogWarn ''Failed to save match'' [MatchID m2] \<in> set (newLogged w w'')
      \<and> (\<forall>p\<in>set (Players m2). \<exists>ok. RemoveCall (ID p) ok \<in> set (newCalls w w'')))"
proof (intro conjI impI)
  assume a: "FindMatch cfg w playerID = (r, w') \<and> SaveCall m False \<in> set (newCalls w w')"
  from FindMatch_effect [of cfg w playerID r w'] a obtain cs ls where
    h: "calls w' = calls w @ cs" "logged w' = logged w @ ls"
    "\<forall>m ok. SaveCall m ok \<in> set cs \<longrightarrow>
           r = Inr m
           \<and> (ok \<longrightarrow> (\<forall>p\<in>set (Players m). matchKeys w' (ID p) = Some m))
           \<and> (\<not> ok \<longrightarrow> matchKeys w' = matchKeys w
                 \<and> LogWarn ''Failed to save match'' [MatchID m] \<in> set ls)
           \<and> (\<forall>p\<in>set (Players m). \<exists>ok'. RemoveCall (ID p) ok' \<in> set cs)"
    by blast
  have nc: "newCalls w w' = cs" and nl: "newLogged w w' = ls"
    using h(1,2) by (simp_all add: newCalls_def newLogged_def)
  from a nc have "SaveCall m False \<in> set cs" by simp
  with h(3) have
    k: "r = Inr m" "matchKeys w' = matchKeys w"
    "LogWarn ''Failed to save match'' [MatchID m] \<in> set ls"
    "\<forall>p\<in>set (Players m). \<exists>ok'. RemoveCall (ID p) ok' \<in> set cs"
    by blast+
  show "r = Inr m" by (rule k(1))
  show "LogWarn ''Failed to save match'' [MatchID m] \<in> set (newLogged w w')"
    using k(3) nl by simp
  show "matchKeys w' = matchKeys w" by (rule k(2))
  show "\<forall>p\<in>set (Players m). \<exists>ok. RemoveCall (ID p) ok \<in> set (newCalls w w')"
    using k(4) nc by simp
next
  assume a: "ProcessQueue cfg w region gameMode = (e, w'')
    \<and> SaveCall m2 False \<in> set (newCalls w w'')"
  from ProcessQueue_effect [of cfg w region gameMode e w''] a obtain cs ls where
    h: "calls w'' = calls w @ RangeCall region gameMode 0 MaxInt 100 # cs"
    "logged w'' = logged w @ ls"
    "e = None \<or> e = Some (FailedToGetPlayers FailedToGetPlayersInRange) \<and> cs = []"
    "\<forall>m ok. SaveCall m ok \<in> set cs \<longrightarrow>
           fullGroup (ZRangeByScore (zsets w (queueKey region gameMode)) 0 MaxInt 100)
             (GetPlayersPerMatch gameMode) m
           \<and> (ok \<longrightarrow> (\<forall>p\<in>set (Players m). matchKeys w'' (ID p) = Some m))
           \<and> (\<not> ok \<longrightarrow> LogWarn ''Failed to save match'' [MatchID m] \<in> set ls)
           \<and> (\<forall>p\<in>set (Players m). \<exists>ok'. RemoveCall (ID p) ok' \<in> set cs)"
    by blast
  have nc: "newCalls w w'' = RangeCall region gameMode 0 MaxInt 100 # cs"
    and nl: "newLogged w w'' = ls"
    using h(1,2) by (simp_all add: newCalls_def newLogged_def)
  from a nc have s: "SaveCall m2 False \<in> set cs" by simp
  with h(3) show "e = None" by auto
  from s h(4) have
    k: "LogWarn ''Failed to save match'' [MatchID m2] \<in> set ls"
    "\<forall>p\<in>set (Players m2). \<exists>ok'. RemoveCall (ID p) ok' \<in> set cs"
    by blast+
  show "LogWarn ''Failed to save match'' [MatchID m2] \<in> set (newLogged w w'')"
    using k(1) nl by simp
  show "\<forall>p\<in>set (Players m2). \<exists>ok. RemoveCall (ID p) ok \<in> set (newCalls w w'')"
    using k(2) nc by auto
qed

theorem C2_save_failure_witness:
  "SaveCall duelMatch False
     \<in> set (newCalls (queueOf duel [False, False, False, True] (10 * Second))
              (snd (FindMatch DefaultMatcherConfig
                      (queueOf duel [False, False, False, True] (10 * Second)) ''alice'')))
   \<and> fst (FindMatch DefaultMatcherConfig
             (queueOf duel [False, False, False, True] (10 * Second)) ''alice'') = Inr duelMatch
   \<and> LogWarn ''Failed to save match'' [MatchID duelMatch]
       \<in> set (newLogged (queueOf duel [False, False, False, True] (10 * Second))
                (snd (FindMatch DefaultMatcherConfig
                        (queueOf duel [False, False, False, True] (10 * Second)) ''alice'')))
   \<and> SaveCall duelMatch False
       \<in> set (newCalls (queueOf duel [False, True] (10 * Second))
                (snd (ProcessQueue DefaultMatcherConfig
                        (queueOf duel [False, True] (10 * Second)) ''EU'' ''1v1'')))
   \<and> fst (ProcessQueue DefaultMatcherConfig
             (queueOf duel [False, True] (10 * Second)) ''EU'' ''1v1'') = None
   \<and> LogWarn ''Failed to save match'' [MatchID duelMatch]
       \<in> set (newLogged (queueOf duel [False, True] (10 * Second))
                (snd (ProcessQueue DefaultMatcherConfig
                        (queueOf duel [False, True] (10 * Second)) ''EU'' ''1v1'')))"
proof -
  let ?wB = "queueOf duel [False, False, False, True] (10 * Second)"
  let ?wD = "queueOf duel [False, True] (10 * Second)"
  obtain r w' where f: "FindMatch DefaultMatcherConfig ?wB ''alice'' = (r, w')"
    by (cases "FindMatch DefaultMatcherConfig ?wB ''alice''")
  obtain e w'' where p: "ProcessQueue DefaultMatcherConfig ?wD ''EU'' ''1v1'' = (e, w'')"
    by (cases "ProcessQueue DefaultMatcherConfig ?wD ''EU'' ''1v1''")
  have hf: "SaveCall duelMatch False \<in> set (newCalls ?wB w')"
    using duel_save_fails f by (simp add: newCalls_def queueOf_def)
  have hp: "SaveCall duelMatch False \<in> set (newCalls ?wD w'')"
    using duel_batch_save_fails p by (simp add: newCalls_def queueOf_def)
  from C2_save_failure_logged_not_propagated
    [where cfg = DefaultMatcherConfig and w = ?wB and playerID = "''alice''" and r = r
      and w' = w' and m = duelMatch]
    C2_save_failure_logged_not_propagated
    [where cfg = DefaultMatcherConfig and w = ?wD and region = "''EU''"
      and gameMode = "''1v1''" and e = e and w'' = w'' and ?m2.0 = duelMatch]
    f p hf hp
  have "r = Inr duelMatch
      \<and> LogWarn ''Failed to save match'' [MatchID duelMatch] \<in> set (newLogged ?wB w')"
    and "e = None
      \<and> LogWarn ''Failed to save match'' [MatchID duelMatch] \<in> set (newLogged ?wD w'')"
    by blast+
  with f p hf hp show ?thesis by simp
qed

text \<open>
  Claim C2 as stated fails when the write of the match fails for two queued 1v1 players:
  \<open>FindMatch\<close> returns the match as a success, \<open>ProcessQueue\<close> returns no error, and
  in both runs the two players are gone from the queue while no match is stored.
\<close>

theorem C2_unsaved_match_counterexample:
  "zsets (queueOf duel [False, False, False, True] (10 * Second)) (queueKey ''EU'' ''1v1'') = duel
   \<and> fst (FindMatch DefaultMatcherConfig
             (queueOf duel [False, False, False, True] (10 * Second)) ''alice'') = Inr duelMatch
   \<and> SaveCall duelMatch False
       \<in> set (calls (snd (FindMatch DefaultMatcherConfig
                            (queueOf duel [False, False, False, True] (10 * Second)) ''alice'')))
   \<and> matchKeys (snd (FindMatch DefaultMatcherConfig
                       (queueOf duel [False, False, False, True] (10 * Second)) ''alice''))
       = Map.empty
   \<and> zsets (snd (FindMatch DefaultMatcherConfig
                   (queueOf duel [False, False, False, True] (10 * Second)) ''alice''))
         (queueKey ''EU'' ''1v1'') = []
   \<and> fst (ProcessQueue DefaultMatcherConfig
             (queueOf duel [False, True] (10 * Second)) ''EU'' ''1v1'') = None
   \<and> SaveCall duelMatch False
       \<in> set (calls (snd (ProcessQueue DefaultMatcherConfig
                            (queueOf duel [False, True] (10 * Second)) ''EU'' ''1v1'')))
   \<and> matchKeys (snd (ProcessQueue DefaultMatcherConfig
                       (queueOf duel [False, True] (10 * Second)) ''EU'' ''1v1''))
       = Map.empty
   \<and> zsets (snd (ProcessQueue DefaultMatcherConfig
                   (queueOf duel [False, True] (10 * Second)) ''EU'' ''1v1''))
         (queueKey ''EU'' ''1v1'') = []"
proof -
  have z: "zsets (queueOf duel [False, False, False, True] (10 * Second)) (queueKey ''EU'' ''1v1'')
      = duel"
    by (simp add: queueOf_def duel_def queued_def queueKey_def)
  from z duel_save_fails duel_batch_save_fails show ?thesis
    by (simp add: split_beta queueKey_def)
qed



text \<open>
  Claim C5, as the code has it. In every invocation of \<open>FindMatch\<close> and of
  \<open>ProcessQueue\<close> the \<open>SaveMatch\<close> call for a match comes strictly before the removal
  of any of its players, and no player is removed without such a call before. When the
  write succeeded, the invocation succeeds and the match is stored under each of its
  players at the end of the invocation. A removal that fails is logged as the warning
  "Failed to remove player from queue"; the invocation still succeeds.
\<close>

theorem C5_save_call_precedes_removals:
  "(FindMatch cfg w playerID = (r, w') \<longrightarrow>
      persistBeforeRemove [] (newCalls w w')
      \<and> (SaveCall m True \<in> set (newCalls w w') \<longrightarrow>
           r = Inr m \<and> (\<forall>p\<in>set (Players m). matchKeys w' (ID p) = Some m))
      \<and> (RemoveCall pid False \<in> set (newCalls w w') \<longrightarrow>
           (\<exists>m'. r = Inr m')
           \<and> LogWarn ''Failed to remove player from queue'' [pid] \<in> set (newLogged w w')))
   \<and> (ProcessQueue cfg w region gameMode = (e, w'') \<longrightarrow>
      persistBeforeRemove [] (newCalls w w'')
      \<and> (SaveCall m2 True \<in> set (newCalls w w'') \<longrightarrow>
           e = None \<and> (\<forall>p\<in>set (Players m2). matchKeys w'' (ID p) = Some m2))
      \<and> (RemoveCall pid2 False \<in> set (newCalls w w'') \<longrightarrow>
           e = None
           \<and> LogWarn ''Failed to remove player from queue'' [pid2]
                \<in> set (newLogged w w'')))"
proof (rule conjI)
  show "FindMatch cfg w playerID = (r, w') \<longrightarrow>
      persistBeforeRemove [] (newCalls w w')
      \<and> (SaveCall m True \<in> set (newCalls w w') \<longrightarrow>
           r = Inr m \<and> (\<forall>p\<in>set (Players m). matchKeys w' (ID p) = Some m))
      \<and> (RemoveCall pid False \<in> set (newCalls w w') \<longrightarrow>
           (\<exists>m'. r = Inr m')
           \<and> LogWarn ''Failed to remove player from queue'' [pid] \<in> set (newLogged w w'))"
  proof (rule impI)
    assume run: "FindMatch cfg w playerID = (r, w')"
    show "persistBeforeRemove [] (newCalls w w')
      \<and> (SaveCall m True \<in> set (newCalls w w') \<longrightarrow>
           r = Inr m \<and> (\<forall>p\<in>set (Players m). matchKeys w' (ID p) = Some m))
      \<and> (RemoveCall pid False \<in> set (newCalls w w') \<longrightarrow>
           (\<exists>m'. r = Inr m')
           \<and> LogWarn ''Failed to remove player from queue'' [pid] \<in> set (newLogged w w'))"
    proof (intro conjI)
      show "persistBeforeRemove [] (newCalls w w')"
        by (rule on_demand_order(1) [OF run])
      show "SaveCall m True \<in> set (newCalls w w') \<longrightarrow>
           r = Inr m \<and> (\<forall>p\<in>set (Players m). matchKeys w' (ID p) = Some m)"
        by (rule impI) (rule on_demand_order(2) [OF run])
      show "RemoveCall pid False \<in> set (newCalls w w') \<longrightarrow>
           (\<exists>m'. r = Inr m')
           \<and> LogWarn ''Failed to remove player from queue'' [pid] \<in> set (newLogged w w')"
        by (rule impI) (rule on_demand_order(3) [OF run])
    qed
  qed
next
  show "ProcessQueue cfg w region gameMode = (e, w'') \<longrightarrow>
      persistBeforeRemove [] (newCalls w w'')
      \<and> (SaveCall m2 True \<in> set (newCalls w w'') \<longrightarrow>
           e = None \<and> (\<forall>p\<in>set (Players m2). matchKeys w'' (ID p) = Some m2))
      \<and> (RemoveCall pid2 False \<in> set (newCalls w w'') \<longrightarrow>
           e = None
           \<and> LogWarn ''Failed to remove player from queue'' [pid2]
                \<in> set (newLogged w w''))"
  proof (rule impI)
    assume run: "ProcessQueue cfg w region gameMode = (e, w'')"
    show "persistBeforeRemove [] (newCalls w w'')
      \<and> (SaveCall m2 True \<in> set (newCalls w w'') \<longrightarrow>
           e = None \<and> (\<forall>p\<in>set (Players m2). matchKeys w'' (ID p) = Some m2))
      \<and> (RemoveCall pid2 False \<in> set (newCalls w w'') \<longrightarrow>
           e = None
           \<and> LogWarn ''Failed to remove player from queue'' [pid2]
                \<in> set (newLogged w w''))"
    proof (intro conjI)
      show "persistBeforeRemove [] (newCalls w w'')"
        by (rule batch_order(1) [OF run])
      show "SaveCall m2 True \<in> set (newCalls w w'') \<longrightarrow>
           e = None \<and> (\<forall>p\<in>set (Players m2). matchKeys w'' (ID p) = Some m2)"
        by (rule impI) (rule batch_order(2) [OF run])
      show "RemoveCall pid2 False \<in> set (newCalls w w'') \<longrightarrow>
           e = None
           \<and> LogWarn ''Failed to remove player from queue'' [pid2]
                \<in> set (newLogged w w'')"
        by (rule impI) (rule batch_order(3) [OF run])
    qed
  qed
qed

theorem C5_save_call_precedes_removals_witness:
  "persistBeforeRemove []
     (newCalls (queueOf duel [False, False, False, False, True] (10 * Second))
        (snd (FindMatch DefaultMatcherConfig
                (queueOf duel [False, False, False, False, True] (10 * Second)) ''alice'')))
   \<and> SaveCall duelMatch True
       \<in> set (newCalls (queueOf duel [False, False, False, False, True] (10 * Second))
                (snd (FindMatch DefaultMatcherConfig
                        (queueOf duel [False, False, False, False, True] (10 * Second)) ''alice'')))
   \<and> RemoveCall ''alice'' False
       \<in> set (newCalls (queueOf duel [False, False, False, False, True] (10 * Second))
                (snd (FindMatch DefaultMatcherConfig
                        (queueOf duel [False, False, False, False, True] (10 * Second)) ''alice'')))
   \<and> fst (FindMatch DefaultMatcherConfig
             (queueOf duel [False, False, False, False, True] (10 * Second)) ''alice'')
       = Inr duelMatch
   \<and> LogWarn ''Failed to remove player from queue'' [''alice'']
       \<in> set (newLogged (queueOf duel [False, False, False, False, True] (10 * Second))
                (snd (FindMatch DefaultMatcherConfig
                        (queueOf duel [False, False, False, False, True] (10 * Second)) ''alice'')))
   \<and> persistBeforeRemove []
       (newCalls (queueOf duel [False, False, True] (10 * Second))
          (snd (ProcessQueue DefaultMatcherConfig
                  (queueOf duel [False, False, True] (10 * Second)) ''EU'' ''1v1'')))
   \<and> SaveCall duelMatch True
       \<in> set (newCalls (queueOf duel [False, False, True] (10 * Second))
                (snd (ProcessQueue DefaultMatcherConfig
                        (queueOf duel [False, False, True] (10 * Second)) ''EU'' ''1v1'')))
   \<and> RemoveCall ''alice'' False
       \<in> set (newCalls (queueOf duel [False, False, True] (10 * Second))
                (snd (ProcessQueue DefaultMatcherConfig
                        (queueOf duel [False, False, True] (10 * Second)) ''EU'' ''1v1'')))
   \<and> fst (ProcessQueue DefaultMatcherConfig
             (queueOf duel [False, False, True] (10 * Second)) ''EU'' ''1v1'') = None
   \<and> LogWarn ''Failed to remove player from queue'' [''alice'']
       \<in> set (newLogged (queueOf duel [False, False, True] (10 * Second))
                (snd (ProcessQueue DefaultMatcherConfig
                        (queueOf duel [False, False, True] (10 * Second)) ''EU'' ''1v1'')))"
proof -
  let ?wH = "queueOf duel [False, False, False, False, True] (10 * Second)"
  let ?wB = "queueOf duel [False, False, True] (10 * Second)"
  obtain r w' where f: "FindMatch DefaultMatcherConfig ?wH ''alice'' = (r, w')"
    by (cases "FindMatch DefaultMatcherConfig ?wH ''alice''")
  obtain e w'' where p: "ProcessQueue DefaultMatcherConfig ?wB ''EU'' ''1v1'' = (e, w'')"
    by (cases "ProcessQueue DefaultMatcherConfig ?wB ''EU'' ''1v1''")
  have hf: "SaveCall duelMatch True \<in> set (newCalls ?wH w')"
    "RemoveCall ''alice'' False \<in> set (newCalls ?wH w')"
    using duel_removal_fails f by (simp_all add: newCalls_def queueOf_def)
  have hp: "SaveCall duelMatch True \<in> set (newCalls ?wB w'')"
    "RemoveCall ''alice'' False \<in> set (newCalls ?wB w'')"
    using duel_batch_removal_fails p by (simp_all add: newCalls_def queueOf_def)
  from C5_save_call_precedes_removals
    [where cfg = DefaultMatcherConfig and w = ?wH and playerID = "''alice''" and r = r
      and w' = w' and m = duelMatch and pid = "''alice''"]
    f hf
  have cf: "persistBeforeRemove [] (newCalls ?wH w')" "r = Inr duelMatch"
    "LogWarn ''Failed to remove player from queue'' [''alice''] \<in> set (newLogged ?wH w')"
    by blast+
  from C5_save_call_precedes_removals
    [where cfg = DefaultMatcherConfig and w = ?wB and region = "''EU''"
      and gameMode = "''1v1''" and e = e and w'' = w'' and ?m2.0 = duelMatch
      and ?pid2.0 = "''alice''"]
    p hp
  have cp: "persistBeforeRemove [] (newCalls ?wB w'')" "e = None"
    "LogWarn ''Failed to remove player from queue'' [''alice''] \<in> set (newLogged ?wB w'')"
    by blast+
  from f p hf hp cf cp show ?thesis by simp
qed

text \<open>
  Claim C5 as stated fails when the write of the match fails: \<open>FindMatch\<close> produces the
  match and removes both of its players from the queue, and the match is stored neither
  before the removals nor after them.
\<close>

theorem C5_removed_without_persisted_match_counterexample:
  "fst (FindMatch DefaultMatcherConfig
          (queueOf duel [False, False, False, True] (10 * Second)) ''alice'') = Inr duelMatch
   \<and> newCalls (queueOf duel [False, False, False, True] (10 * Second))
        (snd (FindMatch DefaultMatcherConfig
                (queueOf duel [False, False, False, True] (10 * Second)) ''alice''))
       = [GetMatchCall ''alice'', GetPlayerCall ''alice'',
          RangeCall ''EU'' ''1v1'' 1300 1700 4, SaveCall duelMatch False,
          RemoveCall ''alice'' True, RemoveCall ''bob'' True]
   \<and> matchKeys (snd (FindMatch DefaultMatcherConfig
                       (queueOf duel [False, False, False, True] (10 * Second)) ''alice''))
        ''alice'' = None
   \<and> matchKeys (snd (FindMatch DefaultMatcherConfig
                       (queueOf duel [False, False, False, True] (10 * Second)) ''alice''))
        ''bob'' = None
   \<and> playerKeys (snd (FindMatch DefaultMatcherConfig
                        (queueOf duel [False, False, False, True] (10 * Second)) ''alice''))
        (playerKey ''alice'') = None
   \<and> playerKeys (snd (FindMatch DefaultMatcherConfig
                        (queueOf duel [False, False, False, True] (10 * Second)) ''alice''))
        (playerKey ''bob'') = None"
  using duel_save_fails
  by (simp add: split_beta playerKey_def newCalls_def queueOf_def)

text \<open>
  Claim C6, as the code has it. When a match is stored for a player and the lookup of the
  stored match does not fail, \<open>FindMatch\<close> for that player returns that match and calls
  nothing but the lookup; when neither of two lookups in succession fails, a second call
  right after returns the same match, and the saved matches, the queues and the player
  keys are as before. A match that \<open>SaveMatch\<close> has written is stored for each of its
  players.
\<close>

theorem C6_saved_match_is_returned_again:
  "(matchKeys w playerID = Some m \<and> list_all (\<lambda>f. \<not> f) (take 1 (faults w)) \<longrightarrow>
      (\<exists>w1. FindMatch cfg w playerID = (Inr m, w1)
         \<and> matchKeys w1 = matchKeys w \<and> zsets w1 = zsets w \<and> playerKeys w1 = playerKeys w
         \<and> newCalls w w1 = [GetMatchCall playerID]))
   \<and> (matchKeys w playerID = Some m \<and> list_all (\<lambda>f. \<not> f) (take 2 (faults w)) \<longrightarrow>
      (\<exists>w1 w2. FindMatch cfg w playerID = (Inr m, w1)
         \<and> FindMatch cfg w1 playerID = (Inr m, w2)
         \<and> matchKeys w1 = matchKeys w \<and> matchKeys w2 = matchKeys w
         \<and> zsets w2 = zsets w \<and> playerKeys w2 = playerKeys w
         \<and> newCalls w w2 = [GetMatchCall playerID, GetMatchCall playerID]))
   \<and> (SaveMatch w0 m = (None, w) \<and> p \<in> set (Players m) \<longrightarrow>
        matchKeys w (ID p) = Some m)"
proof (intro conjI impI)
  assume a: "matchKeys w playerID = Some m \<and> list_all (\<lambda>f. \<not> f) (take 1 (faults w))"
  define w1 where "w1 = logger (LogInfo ''Returning saved match'' [MatchID m, playerID])
                (returned (GetMatchCall playerID) (snd (redis_fails w)))"
  from a have "list_all (\<lambda>f. \<not> f) (take (Suc 0) (faults w))" by simp
  from no_fault_next(1) [OF this] have ok: "\<not> fst (redis_fails w)" .
  have f1: "FindMatch cfg w playerID = (Inr m, w1)"
    using FindMatch_saved [of w playerID m cfg] a ok by (simp add: w1_def)
  have "matchKeys w1 = matchKeys w" "zsets w1 = zsets w" "playerKeys w1 = playerKeys w"
    "newCalls w w1 = [GetMatchCall playerID]"
    by (simp_all add: w1_def logger_def returned_def newCalls_def redis_fails_eq)
  with f1 show "\<exists>w1. FindMatch cfg w playerID = (Inr m, w1)
         \<and> matchKeys w1 = matchKeys w \<and> zsets w1 = zsets w \<and> playerKeys w1 = playerKeys w
         \<and> newCalls w w1 = [GetMatchCall playerID]"
    by blast
next
  assume a: "matchKeys w playerID = Some m \<and> list_all (\<lambda>f. \<not> f) (take 2 (faults w))"
  define w1 where "w1 = logger (LogInfo ''Returning saved match'' [MatchID m, playerID])
                (returned (GetMatchCall playerID) (snd (redis_fails w)))"
  define w2 where "w2 = logger (LogInfo ''Returning saved match'' [MatchID m, playerID])
                (returned (GetMatchCall playerID) (snd (redis_fails w1)))"
  from a have two: "list_all (\<lambda>f. \<not> f) (take (Suc (Suc 0)) (faults w))"
    by (simp add: numeral_2_eq_2)
  note n1 = no_fault_next [OF two]
  have fw1: "faults w1 = faults (snd (redis_fails w))"
    by (simp add: w1_def logger_def returned_def)
  have ok1: "\<not> fst (redis_fails w)"
    by (rule n1(1))
  have ok2: "\<not> fst (redis_fails w1)"
    using no_fault_next(1) [of 0 w1] n1(2) fw1 by simp
  have k1: "matchKeys w1 = matchKeys w"
    by (simp add: w1_def logger_def returned_def redis_fails_eq)
  have f1: "FindMatch cfg w playerID = (Inr m, w1)"
    using FindMatch_saved [of w playerID m cfg] a ok1 by (simp add: w1_def)
  have f2: "FindMatch cfg w1 playerID = (Inr m, w2)"
    using FindMatch_saved [of w1 playerID m cfg] a k1 ok2 by (simp add: w2_def)
  have rest: "matchKeys w2 = matchKeys w" "zsets w2 = zsets w" "playerKeys w2 = playerKeys w"
    "newCalls w w2 = [GetMatchCall playerID, GetMatchCall playerID]"
    by (simp_all add: w2_def w1_def logger_def returned_def newCalls_def redis_fails_eq)
  from f1 f2 k1 rest
  show "\<exists>w1 w2. FindMatch cfg w playerID = (Inr m, w1)
         \<and> FindMatch cfg w1 playerID = (Inr m, w2)
         \<and> matchKeys w1 = matchKeys w \<and> matchKeys w2 = matchKeys w
         \<and> zsets w2 = zsets w \<and> playerKeys w2 = playerKeys w
         \<and> newCalls w w2 = [GetMatchCall playerID, GetMatchCall playerID]"
    by blast
next
  assume "SaveMatch w0 m = (None, w) \<and> p \<in> set (Players m)"
  then show "matchKeys w (ID p) = Some m"
    using SaveMatch_persists [of w0 m w p] by simp
qed

theorem C6_saved_match_witness:
  "fst (SaveMatch (queueOf duel [False, False, False, True] (10 * Second)) duelMatch) = None
   \<and> queued ''bob'' 1550 ''EU'' ''1v1'' \<in> set (Players duelMatch)
   \<and> matchKeys (snd (SaveMatch (queueOf duel [False, False, False, True] (10 * Second))
                       duelMatch)) ''bob''
       = Some duelMatch
   \<and> list_all (\<lambda>f. \<not> f)
        (take 1 (faults (snd (SaveMatch
                                (queueOf duel [False, False, False, True] (10 * Second))
                                duelMatch))))
   \<and> list_all (\<lambda>f. \<not> f)
        (take 2 (faults (snd (SaveMatch
                                (queueOf duel [False, False, False, True] (10 * Second))
                                duelMatch))))
   \<and> fst (FindMatch DefaultMatcherConfig
             (snd (SaveMatch (queueOf duel [False, False, False, True] (10 * Second))
                     duelMatch)) ''bob'')
       = Inr duelMatch
   \<and> newCalls (snd (SaveMatch (queueOf duel [False, False, False, True] (10 * Second))
                        duelMatch))
        (snd (FindMatch DefaultMatcherConfig
                (snd (SaveMatch (queueOf duel [False, False, False, True] (10 * Second))
                        duelMatch)) ''bob''))
       = [GetMatchCall ''bob'']
   \<and> fst (FindMatch DefaultMatcherConfig
             (snd (FindMatch DefaultMatcherConfig
                     (snd (SaveMatch (queueOf duel [False, False, False, True] (10 * Second))
                             duelMatch)) ''bob''))
             ''bob'')
       = Inr duelMatch
   \<and> matchKeys (snd (FindMatch DefaultMatcherConfig
             (snd (FindMatch DefaultMatcherConfig
                     (snd (SaveMatch (queueOf duel [False, False, False, True] (10 * Second))
                             duelMatch)) ''bob''))
             ''bob''))
       = matchKeys (snd (SaveMatch (queueOf duel [False, False, False, True] (10 * Second))
                           duelMatch))"
proof -
  let ?w0 = "queueOf duel [False, False, False, True] (10 * Second)"
  obtain s w where sv: "SaveMatch ?w0 duelMatch = (s, w)"
    by (cases "SaveMatch ?w0 duelMatch")
  have s: "s = None"
    using sv by (simp add: SaveMatch_def redis_fails_def queueOf_def)
  have fw: "list_all (\<lambda>f. \<not> f) (take 2 (faults w))"
    using sv by (auto simp add: SaveMatch_def redis_fails_def queueOf_def returned_def)
  have fw1: "list_all (\<lambda>f. \<not> f) (take 1 (faults w))"
    using sv by (auto simp add: SaveMatch_def redis_fails_def queueOf_def returned_def)
  have b: "queued ''bob'' 1550 ''EU'' ''1v1'' \<in> set (Players duelMatch)"
    by (simp add: duelMatch_def duel_def)
  have idb: "ID (queued ''bob'' 1550 ''EU'' ''1v1'') = ''bob''"
    by (simp add: queued_def)
  note inst = C6_saved_match_is_returned_again
    [where w = w and playerID = "''bob''" and m = duelMatch and cfg = DefaultMatcherConfig
      and ?w0.0 = ?w0 and p = "queued ''bob'' 1550 ''EU'' ''1v1''"]
  from inst sv s b idb have k: "matchKeys w ''bob'' = Some duelMatch"
    by simp
  with inst fw obtain w1 w2 where
    r: "FindMatch DefaultMatcherConfig w ''bob'' = (Inr duelMatch, w1)"
    "FindMatch DefaultMatcherConfig w1 ''bob'' = (Inr duelMatch, w2)"
    "matchKeys w2 = matchKeys w"
    by blast
  from inst k fw1 obtain w1' where
    r1: "FindMatch DefaultMatcherConfig w ''bob'' = (Inr duelMatch, w1')"
    "newCalls w w1' = [GetMatchCall ''bob'']"
    by blast
  from r(1) r1 have once: "newCalls w w1 = [GetMatchCall ''bob'']"
    by simp
  from sv s b k fw fw1 r once show ?thesis by simp
qed

text \<open>
  Claim C6 as stated fails when the lookup of the stored match fails: \<open>FindMatch\<close>
  drops the error and searches the queue. After the match of the two 1v1 players is
  stored and both are removed from the queue, a call for the second player whose lookup
  fails returns "player not found in queue" and not the stored match. After the match is
  stored and both removals have failed, a call for the second player whose lookup fails
  builds and stores a second match of the two players.
\<close>

theorem C6_failed_lookup_counterexample:
  "fst (FindMatch DefaultMatcherConfig
          (queueOf duel [False, False, False, False, False, False, False, False, False, False,
                         True] (10 * Second)) ''alice'') = Inr duelMatch
   \<and> matchKeys (snd (FindMatch DefaultMatcherConfig
          (queueOf duel [False, False, False, False, False, False, False, False, False, False,
                         True] (10 * Second)) ''alice'')) ''bob'' = Some duelMatch
   \<and> fst (FindMatch DefaultMatcherConfig
            (snd (FindMatch DefaultMatcherConfig
               (queueOf duel [False, False, False, False, False, False, False, False, False,
                              False, True] (10 * Second)) ''alice'')) ''bob'')
       = Inl (PlayerNotFoundInQueue PlayerNotFound)
   \<and> fst (FindMatch DefaultMatcherConfig
          (queueOf duel [False, False, False, False, True, True, True] (10 * Second))
          ''alice'') = Inr duelMatch
   \<and> matchKeys (snd (FindMatch DefaultMatcherConfig
          (queueOf duel [False, False, False, False, True, True, True] (10 * Second))
          ''alice'')) ''bob'' = Some duelMatch
   \<and> fst (FindMatch DefaultMatcherConfig
            (snd (FindMatch DefaultMatcherConfig
               (queueOf duel [False, False, False, False, True, True, True] (10 * Second))
               ''alice'')) ''bob'')
       = Inr rematch
   \<and> rematch \<noteq> duelMatch
   \<and> matchKeys (snd (FindMatch DefaultMatcherConfig
            (snd (FindMatch DefaultMatcherConfig
               (queueOf duel [False, False, False, False, True, True, True] (10 * Second))
               ''alice'')) ''bob'')) ''bob''
       = Some rematch"
proof -
  have d: "rematch \<noteq> duelMatch"
    by (simp add: rematch_def duelMatch_def duel_def queued_def)
  from d duel_lookup_fails duel_second_match show ?thesis
    by (simp add: split_beta)
qed

text \<open>
  Claim C8, evaluated on the code. Two 1v1 players with the ratings -20 and -10 are queued
  in EU. \<open>ProcessQueue\<close> fetches the scores from 0 to \<open>MaxInt\<close>, so the fetched list is
  empty although the partition holds two players, far below the cap of 100; it returns
  without error, calls nothing else and leaves both players queued. \<open>FindMatch\<close> for one
  of them fetches around the player's own rating and matches the two.
\<close>

theorem C8_negative_ratings_not_fetched:
  "zsets (queueOf lowDuel [] (10 * Second)) (queueKey ''EU'' ''1v1'') = lowDuel
   \<and> length lowDuel = 2
   \<and> fst (GetPlayersInRange (queueOf lowDuel [] (10 * Second)) ''EU'' ''1v1'' 0 MaxInt 100)
        = Inr []
   \<and> fst (ProcessQueue DefaultMatcherConfig (queueOf lowDuel [] (10 * Second)) ''EU'' ''1v1'')
        = None
   \<and> calls (snd (ProcessQueue DefaultMatcherConfig (queueOf lowDuel [] (10 * Second))
                   ''EU'' ''1v1''))
        = [RangeCall ''EU'' ''1v1'' 0 MaxInt 100]
   \<and> zsets (snd (ProcessQueue DefaultMatcherConfig (queueOf lowDuel [] (10 * Second))
                   ''EU'' ''1v1'')) (queueKey ''EU'' ''1v1'')
        = lowDuel
   \<and> fst (FindMatch DefaultMatcherConfig (queueOf lowDuel [] (10 * Second)) ''erin'')
        = Inr \<lparr>MatchID = ''match_10000000000'', Players = lowDuel, CreatedAt = 10 * Second\<rparr>"
proof -
  have z: "zsets (queueOf lowDuel [] (10 * Second)) (queueKey ''EU'' ''1v1'') = lowDuel"
    by (simp add: queueOf_def lowDuel_def queued_def queueKey_def)
  have l: "length lowDuel = 2"
    by (simp add: lowDuel_def)
  have g: "fst (GetPlayersInRange (queueOf lowDuel [] (10 * Second)) ''EU'' ''1v1'' 0 MaxInt 100)
        = Inr []"
    by (simp add: run_defs lowDuel_def)
  have p: "fst (ProcessQueue DefaultMatcherConfig (queueOf lowDuel [] (10 * Second))
                  ''EU'' ''1v1'') = None"
    "calls (snd (ProcessQueue DefaultMatcherConfig (queueOf lowDuel [] (10 * Second))
                   ''EU'' ''1v1''))
        = [RangeCall ''EU'' ''1v1'' 0 MaxInt 100]"
    "zsets (snd (ProcessQueue DefaultMatcherConfig (queueOf lowDuel [] (10 * Second))
                   ''EU'' ''1v1'')) (queueKey ''EU'' ''1v1'')
        = lowDuel"
    using lowDuel_batch by (simp_all add: split_beta queueKey_def)
  have f: "fst (FindMatch DefaultMatcherConfig (queueOf lowDuel [] (10 * Second)) ''erin'')
        = Inr \<lparr>MatchID = ''match_10000000000'', Players = lowDuel, CreatedAt = 10 * Second\<rparr>"
    using lowDuel_on_demand by (simp add: split_beta)
  from z l g p f show ?thesis by (intro conjI)
qed

text \<open>
  Claim C10. In a match that \<open>FindMatch\<close> assembles (no match was saved for the player
  before) the first player is the record stored under the requesting player's key, and
  the others are members of the sorted set of that player's region and game mode, as they
  were when the call started. The match holds the records themselves: a player of the
  match whose removal succeeded has no player key left, and is still in the match.
\<close>

theorem C10_requester_first_and_snapshots:
  "matchKeys w playerID = None \<and> FindMatch cfg w playerID = (Inr m, w') \<longrightarrow>
     (\<exists>currentPlayer others.
        playerKeys w (playerKey playerID) = Some currentPlayer
        \<and> Players m = currentPlayer # others
        \<and> set others
             \<subseteq> set (zsets w (queueKey (Region currentPlayer) (GameMode currentPlayer))))
     \<and> (\<forall>p\<in>set (Players m). RemoveCall (ID p) True \<in> set (newCalls w w') \<longrightarrow>
           playerKeys w' (playerKey (ID p)) = None)"
proof (rule impI, elim conjE)
  assume new: "matchKeys w playerID = None"
    and run: "FindMatch cfg w playerID = (Inr m, w')"
  from FindMatch_new_group [OF new run] obtain currentPlayer others where
    g: "playerKeys w (playerKey playerID) = Some currentPlayer"
    "Players m = currentPlayer # others"
    "set others \<subseteq> set (zsets w (queueKey (Region currentPlayer) (GameMode currentPlayer)))"
    by blast
  then have first: "\<exists>currentPlayer others.
        playerKeys w (playerKey playerID) = Some currentPlayer
        \<and> Players m = currentPlayer # others
        \<and> set others
             \<subseteq> set (zsets w (queueKey (Region currentPlayer) (GameMode currentPlayer)))"
    by blast
  have gone: "\<forall>p\<in>set (Players m). RemoveCall (ID p) True \<in> set (newCalls w w') \<longrightarrow>
           playerKeys w' (playerKey (ID p)) = None"
    using on_demand_removed [OF run new] by blast
  from first gone show "(\<exists>currentPlayer others.
        playerKeys w (playerKey playerID) = Some currentPlayer
        \<and> Players m = currentPlayer # others
        \<and> set others
             \<subseteq> set (zsets w (queueKey (Region currentPlayer) (GameMode currentPlayer))))
     \<and> (\<forall>p\<in>set (Players m). RemoveCall (ID p) True \<in> set (newCalls w w') \<longrightarrow>
           playerKeys w' (playerKey (ID p)) = None)"
    by (rule conjI)
qed

theorem C10_requester_first_witness:
  "matchKeys (queueOf duel [False, False, False, False, True] (10 * Second)) ''alice'' = None
   \<and> fst (FindMatch DefaultMatcherConfig
             (queueOf duel [False, False, False, False, True] (10 * Second)) ''alice'')
       = Inr duelMatch
   \<and> playerKeys (queueOf duel [False, False, False, False, True] (10 * Second)) (playerKey ''alice'')
       = Some (hd (Players duelMatch))
   \<and> set (tl (Players duelMatch))
       \<subseteq> set (zsets (queueOf duel [False, False, False, False, True] (10 * Second))
                (queueKey ''EU'' ''1v1''))
   \<and> queued ''bob'' 1550 ''EU'' ''1v1'' \<in> set (Players duelMatch)
   \<and> RemoveCall ''bob'' True
       \<in> set (newCalls (queueOf duel [False, False, False, False, True] (10 * Second))
                (snd (FindMatch DefaultMatcherConfig
                        (queueOf duel [False, False, False, False, True] (10 * Second)) ''alice'')))
   \<and> playerKeys (snd (FindMatch DefaultMatcherConfig
                        (queueOf duel [False, False, False, False, True] (10 * Second)) ''alice''))
        (playerKey ''bob'') = None"
proof -
  let ?wH = "queueOf duel [False, False, False, False, True] (10 * Second)"
  obtain r w' where f: "FindMatch DefaultMatcherConfig ?wH ''alice'' = (r, w')"
    by (cases "FindMatch DefaultMatcherConfig ?wH ''alice''")
  have new: "matchKeys ?wH ''alice'' = None"
    by (simp add: queueOf_def)
  have fr: "FindMatch DefaultMatcherConfig ?wH ''alice'' = (Inr duelMatch, w')"
    using duel_removal_fails f by simp
  have b: "queued ''bob'' 1550 ''EU'' ''1v1'' \<in> set (Players duelMatch)"
    "ID (queued ''bob'' 1550 ''EU'' ''1v1'') = ''bob''"
    "Region (hd (Players duelMatch)) = ''EU''" "GameMode (hd (Players duelMatch)) = ''1v1''"
    by (simp_all add: duelMatch_def duel_def queued_def)
  have rb: "RemoveCall ''bob'' True \<in> set (newCalls ?wH w')"
    using duel_removal_fails f by (simp add: newCalls_def queueOf_def)
  note inst = C10_requester_first_and_snapshots
    [where cfg = DefaultMatcherConfig and w = ?wH and playerID = "''alice''"
      and m = duelMatch and w' = w']
  from inst new fr obtain currentPlayer others where
    g: "playerKeys ?wH (playerKey ''alice'') = Some currentPlayer"
    "Players duelMatch = currentPlayer # others"
    "set others \<subseteq> set (zsets ?wH (queueKey (Region currentPlayer) (GameMode currentPlayer)))"
    by blast
  from inst new fr b(1,2) rb have gone: "playerKeys w' (playerKey ''bob'') = None"
    by force
  from g b(3,4) have first: "playerKeys ?wH (playerKey ''alice'') = Some (hd (Players duelMatch))"
    and rest: "set (tl (Players duelMatch)) \<subseteq> set (zsets ?wH (queueKey ''EU'' ''1v1''))"
    by simp_all
  from new fr first rest b(1) rb gone show ?thesis by simp
qed

end
